theory Spec2Isabelle
  imports Main "HOL-Library.FSet" "HOL-Library.Multiset"
begin

section \<open>Errors\<close>

text \<open>
  The exceptions the modelled functions can raise. \<open>AlreadyPredicted\<close> is the plain
  \<^verbatim>\<open>Exception\<close> of \<^verbatim>\<open>check_pangenome_former_rgp\<close>; the others are Python's
  built-in exceptions of the same name.
\<close>

datatype error = ZeroDivisionError | IndexError | KeyError | AttributeError | AlreadyPredicted

section \<open>Similarity of two regions (rgp\_cluster.py)\<close>

text \<open>
  Family sets are finite sets of family identifiers. Python's \<^verbatim>\<open>/\<close> on two lengths
  is modelled by the exact quotient, a rational number; a zero divisor raises
  \<^verbatim>\<open>ZeroDivisionError\<close>. \<open>mode\<close> is the function argument (\<^verbatim>\<open>min\<close> or \<^verbatim>\<open>max\<close>).
\<close>

definition compute_grr :: "'a fset \<Rightarrow> 'a fset \<Rightarrow> (nat \<Rightarrow> nat \<Rightarrow> nat) \<Rightarrow> error + rat" where
  "compute_grr rgp_a_families rgp_b_families mode =
     (if mode (fcard rgp_a_families) (fcard rgp_b_families) = 0 then Inl ZeroDivisionError
      else Inr (of_nat (fcard (rgp_a_families |\<inter>| rgp_b_families))
                / of_nat (mode (fcard rgp_a_families) (fcard rgp_b_families))))"

definition compute_jaccard_index :: "'a fset \<Rightarrow> 'a fset \<Rightarrow> error + rat" where
  "compute_jaccard_index rgp_a_families rgp_b_families =
     (if fcard (rgp_a_families |\<union>| rgp_b_families) = 0 then Inl ZeroDivisionError
      else Inr (of_nat (fcard (rgp_a_families |\<inter>| rgp_b_families))
                / of_nat (fcard (rgp_a_families |\<union>| rgp_b_families))))"

text \<open>The dictionary \<^verbatim>\<open>edge_metrics\<close> with its three keys.\<close>

record edge_metrics =
  min_grr :: rat
  max_grr :: rat
  jaccard_index :: rat

text \<open>
  The \<^verbatim>\<open>for\<close> loop of \<^verbatim>\<open>compute_rgp_metric\<close>; \<open>acc\<close> is the list
  \<^verbatim>\<open>pairs_of_rgps_metrics\<close> built so far. An exception of a metric ends the loop.
\<close>

fun compute_rgp_metric_loop ::
  "((string \<times> 'a fset) \<times> (string \<times> 'a fset)) list \<Rightarrow> (string \<times> string \<times> edge_metrics) list
     \<Rightarrow> error + (string \<times> string \<times> edge_metrics) list" where
  "compute_rgp_metric_loop [] acc = Inr acc"
| "compute_rgp_metric_loop (((rgp_a, rgp_a_fam), (rgp_b, rgp_b_fam)) # pairs) acc =
     (if rgp_a_fam |\<inter>| rgp_b_fam \<noteq> {||} then
        (case compute_grr rgp_a_fam rgp_b_fam min of
           Inl e \<Rightarrow> Inl e
         | Inr mn \<Rightarrow>
            (case compute_grr rgp_a_fam rgp_b_fam max of
               Inl e \<Rightarrow> Inl e
             | Inr mx \<Rightarrow>
                (case compute_jaccard_index rgp_a_fam rgp_b_fam of
                   Inl e \<Rightarrow> Inl e
                 | Inr j \<Rightarrow>
                    compute_rgp_metric_loop pairs
                      (acc @ [(rgp_a, rgp_b,
                               \<lparr>min_grr = mn, max_grr = mx, jaccard_index = j\<rparr>)]))))
      else compute_rgp_metric_loop pairs acc)"

definition compute_rgp_metric ::
  "((string \<times> 'a fset) \<times> (string \<times> 'a fset)) list
     \<Rightarrow> error + (string \<times> string \<times> edge_metrics) list" where
  "compute_rgp_metric pairs_of_rgps = compute_rgp_metric_loop pairs_of_rgps []"

section \<open>The score automaton of a contig (genomicIsland.py)\<close>

subsection \<open>Data\<close>

text \<open>
  What the prediction reads of a gene family, a gene and a contig. \<open>organism\<close> is the
  name of the gene's organism. The field \<open>name\<close> of a contig is \<open>contig_name\<close> here, because
  the regions have a name too.
\<close>

record gene_family =
  family_ID :: nat
  named_partition :: string

record gene =
  gene_ID :: string
  family :: gene_family
  organism :: string
  start :: int
  stop :: int

record contig =
  contig_name :: string
  genes :: "gene list"
  is_circular :: bool

text \<open>
  A node of the matrix. The nodes of a contig live in one Python list and are mutated in
  place; a reference to a node (\<^verbatim>\<open>prev\<close>, \<^verbatim>\<open>zero_ind\<close>, a loop variable) is the position of
  that node in the list.
\<close>

record matrice_node =
  state :: nat
  score :: int
  prev :: "nat option"
  gene :: gene

definition MatriceNode :: "nat \<Rightarrow> int \<Rightarrow> nat option \<Rightarrow> gene \<Rightarrow> matrice_node" where
  "MatriceNode st sc p g = \<lparr>state = st, score = (if sc > 0 then sc else 0), prev = p, gene = g\<rparr>"

definition changes :: "matrice_node \<Rightarrow> int \<Rightarrow> matrice_node" where
  "changes node sc =
     node\<lparr>state := (if sc \<ge> 0 then 1 else 0), score := (if sc \<ge> 0 then sc else 0)\<rparr>"

text \<open>
  A region as \<^verbatim>\<open>Region(name)\<close> creates it: no genes, score 0. \<^verbatim>\<open>append\<close> adds a gene at the
  end of \<open>region_genes\<close>.
\<close>

record region =
  region_name :: string
  region_genes :: "gene list"
  region_score :: int

definition Region :: "string \<Rightarrow> region" where
  "Region region_id = \<lparr>region_name = region_id, region_genes = [], region_score = 0\<rparr>"

text \<open>Python's \<^verbatim>\<open>str\<close> of a natural number: its decimal digits.\<close>

fun str :: "nat \<Rightarrow> string" where
  "str n = (if n < 10 then [char_of (48 + n)] else str (n div 10) @ [char_of (48 + n mod 10)])"

declare str.simps [simp del]

subsection \<open>The score of one gene\<close>

text \<open>
  The branch that the three walks share: a persistent gene whose family is not multigenic
  costs \<open>persistent ^ nb_perc\<close> and increments \<open>nb_perc\<close>, any other gene gains \<open>continuity\<close>
  and resets \<open>nb_perc\<close>. The result is the pair \<open>(modif, nb_perc)\<close> after the branch.
\<close>

definition modif_of :: "gene_family set \<Rightarrow> int \<Rightarrow> int \<Rightarrow> nat \<Rightarrow> gene \<Rightarrow> int \<times> nat" where
  "modif_of multi persistent continuity nb_perc g =
     (if named_partition (family g) = ''persistent'' \<and> family g \<notin> multi
      then (- (persistent ^ nb_perc), nb_perc + 1)
      else (continuity, 0))"

subsection \<open>\<^verbatim>\<open>init_matrices\<close>\<close>

text \<open>
  The variables of the \<^verbatim>\<open>for\<close> loop. \<^verbatim>\<open>prev\<close> is the last node of \<open>mat\<close> (\<^verbatim>\<open>None\<close> while
  \<open>mat\<close> is empty). \<^verbatim>\<open>zero_ind\<close> is \<^verbatim>\<open>None\<close> or the position of a node: the value \<^verbatim>\<open>True\<close>
  that the loop gives it when the score is negative is replaced by the new node in the same
  iteration, since that node has state 0.
\<close>

record init_vars =
  mat :: "matrice_node list"
  nb_perc :: nat
  zero_ind :: "nat option"
  curr_state :: "nat option"

definition init_vars0 :: init_vars where
  "init_vars0 = \<lparr>mat = [], nb_perc = 0, zero_ind = None, curr_state = None\<rparr>"

definition init_step :: "gene_family set \<Rightarrow> int \<Rightarrow> int \<Rightarrow> init_vars \<Rightarrow> gene \<Rightarrow> init_vars" where
  "init_step multi persistent_penalty variable_gain v g =
     (let (modif, nb) = modif_of multi persistent_penalty variable_gain (nb_perc v) g;
          curr_score = (if mat v = [] then modif else modif + score (last (mat v)));
          st = (if curr_score \<ge> 0 then 1 else 0);
          node = MatriceNode st curr_score
                   (if mat v = [] then None else Some (length (mat v) - 1)) g
      in \<lparr>mat = mat v @ [node], nb_perc = nb,
          zero_ind = (if state node = 0 then Some (length (mat v)) else zero_ind v),
          curr_state = Some st\<rparr>)"

definition init_pass :: "contig \<Rightarrow> gene_family set \<Rightarrow> int \<Rightarrow> int \<Rightarrow> init_vars" where
  "init_pass contig multi persistent_penalty variable_gain =
     foldl (init_step multi persistent_penalty variable_gain) init_vars0 (genes contig)"

text \<open>
  The \<^verbatim>\<open>while\<close> loop of the circular case. \<open>prv\<close> is the position of the last node, which
  the loop never reassigns; \<open>c\<close> only grows, and \<^verbatim>\<open>mat[c]\<close> beyond the end would raise
  \<^verbatim>\<open>IndexError\<close>.
\<close>

function wrap_loop ::
  "gene_family set \<Rightarrow> int \<Rightarrow> int \<Rightarrow> nat \<Rightarrow> nat \<Rightarrow> nat \<Rightarrow> matrice_node list \<Rightarrow> nat \<Rightarrow> nat
     \<Rightarrow> error + matrice_node list" where
  "wrap_loop multi persistent_penalty variable_gain zero prv cur_state m c nb =
     (if cur_state = 0 then Inr m
      else if c \<ge> length m then Inl IndexError
      else if c = zero then Inr m
      else
        (let (modif, nb') = modif_of multi persistent_penalty variable_gain nb (gene (m ! c));
             curr_score = modif + score (m ! prv)
         in wrap_loop multi persistent_penalty variable_gain zero prv
              (if curr_score \<ge> 0 then 1 else 0) (m[c := changes (m ! c) curr_score]) (c + 1) nb'))"
  by pat_completeness auto
termination
  by (relation "measure (\<lambda>(multi, p, g, zero, prv, cur_state, m, c, nb). length m - c)") auto

declare wrap_loop.simps [simp del]

definition init_matrices ::
  "contig \<Rightarrow> gene_family set \<Rightarrow> int \<Rightarrow> int \<Rightarrow> error + matrice_node list" where
  "init_matrices contig multi persistent_penalty variable_gain =
     (let v = init_pass contig multi persistent_penalty variable_gain in
      case (curr_state v, zero_ind v) of
        (Some st, Some zero) \<Rightarrow>
          if is_circular contig \<and> st \<noteq> 0 then
            wrap_loop multi persistent_penalty variable_gain zero (length (mat v) - 1) st
              ((mat v)[0 := (mat v ! 0)\<lparr>prev := Some (length (mat v) - 1)\<rparr>]) 0 0
          else Inr (mat v)
      | _ \<Rightarrow> Inr (mat v))"

subsection \<open>\<^verbatim>\<open>extract_rgp\<close>\<close>

text \<open>
  The \<^verbatim>\<open>while\<close> loop of \<^verbatim>\<open>extract_rgp\<close>: \<open>node\<close> is the position of the current node, \<open>acc\<close>
  the genes appended so far. Every visited node loses its state, so the walk ends. A
  link of the source always refers to a node of the matrix; a position outside the matrix,
  which no link made by \<^verbatim>\<open>init_matrices\<close> is, ends the walk.
\<close>

function extract_loop :: "matrice_node list \<Rightarrow> nat \<Rightarrow> gene list \<Rightarrow> gene list \<times> matrice_node list" where
  "extract_loop matrix node acc =
     (if node < length matrix \<and> state (matrix ! node) \<noteq> 0 then
        (let acc' = acc @ [gene (matrix ! node)];
             matrix' = matrix[node := (matrix ! node)\<lparr>state := 0, score := 0\<rparr>]
         in case prev (matrix ! node) of
              None \<Rightarrow> (acc', matrix')
            | Some p \<Rightarrow> extract_loop matrix' p acc')
      else (acc, matrix))"
  by pat_completeness auto
termination
  apply (relation "measure (\<lambda>(matrix, node, acc). sum_list (map state matrix))")
   apply simp
  apply (simp add: map_update sum_list_update)
  apply (metis elem_le_sum_list length_map nth_map not_gr_zero diff_less less_le_trans zero_less_diff neq0_conv le_zero_eq)
  done

declare extract_loop.simps [simp del]

text \<open>
  \<^verbatim>\<open>extract_rgp\<close> receives the node as its position in \<open>matrix\<close> and returns the region with
  the matrix after the walk. With a naming that is neither \<^verbatim>\<open>contig\<close> nor \<^verbatim>\<open>organism\<close>,
  \<^verbatim>\<open>new_region\<close> stays \<^verbatim>\<open>None\<close>: the first \<^verbatim>\<open>append\<close> raises \<^verbatim>\<open>AttributeError\<close>, and without
  any \<^verbatim>\<open>append\<close> the function returns \<^verbatim>\<open>None\<close>.
\<close>

definition extract_rgp ::
  "contig \<Rightarrow> matrice_node list \<Rightarrow> nat \<Rightarrow> nat \<Rightarrow> string \<Rightarrow> error + (region option \<times> matrice_node list)" where
  "extract_rgp contig matrix node rgp_id naming =
     (let new_region =
            (if naming = ''contig'' then
               Some (Region (contig_name contig @ ''_RGP_'' @ str rgp_id))
             else if naming = ''organism'' then
               Some (Region (organism (gene (matrix ! node)) @ ''_'' @ contig_name contig
                             @ ''_RGP_'' @ str rgp_id))
             else None)
      in case new_region of
           None \<Rightarrow> (if state (matrix ! node) \<noteq> 0 then Inl AttributeError else Inr (None, matrix))
         | Some r \<Rightarrow>
             (let (gs, matrix') = extract_loop matrix node []
              in Inr (Some (r\<lparr>region_genes := gs\<rparr>), matrix')))"

subsection \<open>\<^verbatim>\<open>rewrite_matrix\<close>\<close>

text \<open>
  The \<^verbatim>\<open>while\<close> loop of \<^verbatim>\<open>rewrite_matrix\<close>: \<open>prv\<close> and \<open>index\<close> are the positions of \<^verbatim>\<open>prev\<close> and
  \<^verbatim>\<open>next_node\<close>. On a circular contig whose nodes all keep a non-zero state the loop never
  ends; not returning is the value \<open>None\<close>. Reading the matrix outside its positions is
  \<^verbatim>\<open>IndexError\<close>; \<^verbatim>\<open>rewrite_matrix\<close> never starts the loop there.
\<close>

partial_function (option) rewrite_loop ::
  "bool \<Rightarrow> gene_family set \<Rightarrow> int \<Rightarrow> int \<Rightarrow> matrice_node list \<Rightarrow> nat \<Rightarrow> nat \<Rightarrow> nat
     \<Rightarrow> (error + matrice_node list) option" where
  "rewrite_loop circular multi persistent continuity matrix prv index nb =
     (if index \<ge> length matrix \<or> prv \<ge> length matrix then Some (Inl IndexError)
      else if state (matrix ! index) \<noteq> 0 then
        (let (modif, nb') = modif_of multi persistent continuity nb (gene (matrix ! index));
             curr_score = modif + score (matrix ! prv);
             matrix' = matrix[index := changes (matrix ! index) curr_score]
         in if index + 1 \<ge> length matrix' then
              (if circular then rewrite_loop circular multi persistent continuity matrix' index 0 nb'
               else Some (Inr matrix'))
            else rewrite_loop circular multi persistent continuity matrix' index (index + 1) nb')
      else Some (Inr matrix))"

declare rewrite_loop.simps [code]

definition rewrite_matrix ::
  "contig \<Rightarrow> matrice_node list \<Rightarrow> nat \<Rightarrow> int \<Rightarrow> int \<Rightarrow> gene_family set
     \<Rightarrow> (error + matrice_node list) option" where
  "rewrite_matrix contig matrix index persistent continuity multi =
     (if index \<ge> length matrix then Some (Inl IndexError)
      else
        (let prv = index;
             index1 = index + 1;
             index2 = (if index1 > length matrix \<and> is_circular contig then 0 else index1)
         in if index2 < length matrix then
              rewrite_loop (is_circular contig) multi persistent continuity matrix prv index2 0
            else Some (Inr matrix)))"

subsection \<open>\<^verbatim>\<open>mk_regions\<close>\<close>

text \<open>
  \<^verbatim>\<open>max_index_node\<close>: the last node with the highest score, as the pair of that score and
  its position. The argument is a list by its type; \<^verbatim>\<open>lst[0]\<close> raises on the empty list.
\<close>

definition max_index_node :: "matrice_node list \<Rightarrow> error + (int \<times> nat)" where
  "max_index_node lst =
     (if lst = [] then Inl IndexError
      else Inr (foldl (\<lambda>(max_score, max_index) (idx, node).
                         if score node \<ge> max_score then (score node, idx)
                         else (max_score, max_index))
                  (score (lst ! 0), 0) (enumerate 0 lst)))"

text \<open>
  One turn of the \<^verbatim>\<open>while\<close> loop of \<^verbatim>\<open>mk_regions\<close>, from the extraction to the next call of
  \<^verbatim>\<open>max_index_node\<close>; it returns the variables of the loop. \<open>contig_regions\<close> is the set of
  kept regions in the order of their insertion: the hash of a region is that of the object
  (two regions made from the same name have different hashes), so \<^verbatim>\<open>add\<close> always inserts.
  \<^verbatim>\<open>new_region[0]\<close> raises \<^verbatim>\<open>IndexError\<close> on a region without genes.
\<close>

definition mk_regions_body ::
  "contig \<Rightarrow> gene_family set \<Rightarrow> int \<Rightarrow> int \<Rightarrow> int \<Rightarrow> string
     \<Rightarrow> matrice_node list \<Rightarrow> region list \<Rightarrow> int \<Rightarrow> nat
     \<Rightarrow> (error + (matrice_node list \<times> region list \<times> int \<times> nat)) option" where
  "mk_regions_body contig multi min_length persistent continuity naming
       matrix contig_regions val index =
     (case extract_rgp contig matrix index (length contig_regions) naming of
        Inl e \<Rightarrow> Some (Inl e)
      | Inr (None, matrix1) \<Rightarrow> Some (Inl AttributeError)
      | Inr (Some r, matrix1) \<Rightarrow>
          (let new_region = r\<lparr>region_score := val\<rparr> in
           if region_genes new_region = [] then Some (Inl IndexError)
           else
             (let contig_regions' =
                    (if stop (hd (region_genes new_region))
                          - start (last (region_genes new_region)) > min_length
                     then contig_regions @ [new_region] else contig_regions)
              in case rewrite_matrix contig matrix1 index persistent continuity multi of
                   None \<Rightarrow> None
                 | Some (Inl e) \<Rightarrow> Some (Inl e)
                 | Some (Inr matrix2) \<Rightarrow>
                     (case max_index_node matrix2 of
                        Inl e \<Rightarrow> Some (Inl e)
                      | Inr (val', index') \<Rightarrow>
                          Some (Inr (matrix2, contig_regions', val', index'))))))"

partial_function (option) mk_regions_loop ::
  "contig \<Rightarrow> gene_family set \<Rightarrow> int \<Rightarrow> int \<Rightarrow> int \<Rightarrow> int \<Rightarrow> string
     \<Rightarrow> matrice_node list \<Rightarrow> region list \<Rightarrow> int \<Rightarrow> nat \<Rightarrow> (error + region list) option" where
  "mk_regions_loop contig multi min_length min_score persistent continuity naming
       matrix contig_regions val index =
     (if val \<ge> min_score then
        (case mk_regions_body contig multi min_length persistent continuity naming
                matrix contig_regions val index of
           None \<Rightarrow> None
         | Some (Inl e) \<Rightarrow> Some (Inl e)
         | Some (Inr (matrix', contig_regions', val', index')) \<Rightarrow>
             mk_regions_loop contig multi min_length min_score persistent continuity naming
               matrix' contig_regions' val' index')
      else Some (Inr contig_regions))"

declare mk_regions_loop.simps [code]

definition mk_regions ::
  "contig \<Rightarrow> matrice_node list \<Rightarrow> gene_family set \<Rightarrow> int \<Rightarrow> int \<Rightarrow> int \<Rightarrow> int \<Rightarrow> string
     \<Rightarrow> (error + region list) option" where
  "mk_regions contig matrix multi min_length min_score persistent continuity naming =
     (case max_index_node matrix of
        Inl e \<Rightarrow> Some (Inl e)
      | Inr (val, index) \<Rightarrow>
          mk_regions_loop contig multi min_length min_score persistent continuity naming
            matrix [] val index)"

section \<open>The check for former predictions (genomicIsland.py)\<close>

text \<open>
  Of the pangenome, \<^verbatim>\<open>check_pangenome_former_rgp\<close> reads the dictionary \<^verbatim>\<open>status\<close>;
  a missing key raises \<^verbatim>\<open>KeyError\<close>. \<^verbatim>\<open>erase_pangenome\<close> belongs to the storage layer;
  its call with \<^verbatim>\<open>rgp=True\<close> is the parameter \<open>erase_rgp\<close>, which returns the pangenome
  after the erasure.
\<close>

record pangenome =
  status :: "string \<rightharpoonup> string"

definition check_pangenome_former_rgp ::
  "('p pangenome_scheme \<Rightarrow> 'p pangenome_scheme) \<Rightarrow> 'p pangenome_scheme \<Rightarrow> bool
     \<Rightarrow> error + 'p pangenome_scheme" where
  "check_pangenome_former_rgp erase_rgp pangenome force =
     (case status pangenome ''predictedRGP'' of
        None \<Rightarrow> Inl KeyError
      | Some s \<Rightarrow>
          if s = ''inFile'' \<and> \<not> force then Inl AlreadyPredicted
          else if s = ''inFile'' \<and> force then Inr (erase_rgp pangenome)
          else Inr pangenome)"

section \<open>Notions of the statements\<close>

text \<open>
  The words of the specification about the first walk: a gene is penalised when its family
  is persistent and not multigenic; \<open>run_length\<close> is the number of penalised genes that
  immediately precede position \<open>i\<close> (the counter \<^verbatim>\<open>nb_perc\<close> before gene \<open>i\<close>); \<open>delta\<close> is the
  score change of gene \<open>i\<close>.
\<close>

definition penalised :: "gene_family set \<Rightarrow> gene \<Rightarrow> bool" where
  "penalised multi g \<longleftrightarrow> named_partition (family g) = ''persistent'' \<and> family g \<notin> multi"

definition run_length :: "gene_family set \<Rightarrow> gene list \<Rightarrow> nat \<Rightarrow> nat" where
  "run_length multi gs i = length (takeWhile (penalised multi) (rev (take i gs)))"

definition delta :: "gene_family set \<Rightarrow> int \<Rightarrow> int \<Rightarrow> gene list \<Rightarrow> nat \<Rightarrow> int" where
  "delta multi P G gs i =
     (if penalised multi (gs ! i) then - (P ^ run_length multi gs i) else G)"

text \<open>The last and the first position of a matrix whose node has state 0.\<close>

definition last_zero :: "matrice_node list \<Rightarrow> nat option" where
  "last_zero m = (case filter (\<lambda>i. state (m ! i) = 0) (rev [0..<length m]) of
                    [] \<Rightarrow> None | i # _ \<Rightarrow> Some i)"

definition first_zero :: "matrice_node list \<Rightarrow> nat option" where
  "first_zero m = (case filter (\<lambda>i. state (m ! i) = 0) [0..<length m] of
                    [] \<Rightarrow> None | i # _ \<Rightarrow> Some i)"

text \<open>Node \<open>i\<close> of a matrix follows the rule of the first walk over the genes \<open>gs\<close>.\<close>

definition node_ok :: "gene_family set \<Rightarrow> int \<Rightarrow> int \<Rightarrow> gene list \<Rightarrow> matrice_node list \<Rightarrow> nat \<Rightarrow> bool" where
  "node_ok multi P G gs m i \<longleftrightarrow>
     (let pre = delta multi P G gs i + (if i = 0 then 0 else score (m ! (i - 1)))
      in gene (m ! i) = gs ! i
         \<and> prev (m ! i) = (if i = 0 then None else Some (i - 1))
         \<and> score (m ! i) = max 0 pre
         \<and> state (m ! i) = (if pre \<ge> 0 then 1 else 0))"

subsection \<open>Concrete contigs\<close>

text \<open>
  Gene number \<open>i\<close> of an example contig spans \<open>[1000 i, 1000 i + 900]\<close>; its family is given.
\<close>

definition persistent_family :: gene_family where
  "persistent_family = \<lparr>family_ID = 0, named_partition = ''persistent''\<rparr>"

definition shell_family :: gene_family where
  "shell_family = \<lparr>family_ID = 1, named_partition = ''shell''\<rparr>"

definition example_gene :: "nat \<Rightarrow> gene_family \<Rightarrow> gene" where
  "example_gene i f =
     \<lparr>gene_ID = str i, family = f, organism = ''org'',
      start = int i * 1000, stop = int i * 1000 + 900\<rparr>"

definition example_contig :: "bool \<Rightarrow> gene_family list \<Rightarrow> contig" where
  "example_contig circular fs =
     \<lparr>contig_name = ''contig'',
      genes = map (\<lambda>(i, f). example_gene i f) (enumerate 0 fs),
      is_circular = circular\<rparr>"

subsection \<open>One contig of \<^verbatim>\<open>compute_org_rgp\<close>\<close>

text \<open>
  The body of the \<^verbatim>\<open>for\<close> loop of \<^verbatim>\<open>compute_org_rgp\<close>: the regions of one contig, none for a
  contig without genes.
\<close>

definition contig_rgp ::
  "contig \<Rightarrow> gene_family set \<Rightarrow> int \<Rightarrow> int \<Rightarrow> int \<Rightarrow> int \<Rightarrow> string \<Rightarrow> (error + region list) option" where
  "contig_rgp contig multigenics persistent_penalty variable_gain min_length min_score naming =
     (if length (genes contig) \<noteq> 0 then
        (case init_matrices contig multigenics persistent_penalty variable_gain of
           Inl e \<Rightarrow> Some (Inl e)
         | Inr matrix \<Rightarrow>
             mk_regions contig matrix multigenics min_length min_score persistent_penalty
               variable_gain naming)
      else Some (Inr []))"

text \<open>The contig of the scenario: three persistent genes, then four shell genes, linear.\<close>

definition scenario_contig :: contig where
  "scenario_contig = example_contig False
         [persistent_family, persistent_family, persistent_family,
          shell_family, shell_family, shell_family, shell_family]"

text \<open>
  A circular contig: two persistent genes, then five shell genes. \<open>extracted_matrix\<close> is its
  matrix after \<^verbatim>\<open>init_matrices\<close> and the extraction that starts at the last node.
\<close>

definition circular_contig :: contig where
  "circular_contig = example_contig True
         [persistent_family, persistent_family,
          shell_family, shell_family, shell_family, shell_family, shell_family]"

definition extracted_matrix :: "matrice_node list" where
  "extracted_matrix =
     [\<lparr>state = 1, score = 4, prev = Some 6, gene = example_gene 0 persistent_family\<rparr>,
      \<lparr>state = 0, score = 0, prev = Some 0, gene = example_gene 1 persistent_family\<rparr>,
      \<lparr>state = 0, score = 0, prev = Some 1, gene = example_gene 2 shell_family\<rparr>,
      \<lparr>state = 0, score = 0, prev = Some 2, gene = example_gene 3 shell_family\<rparr>,
      \<lparr>state = 0, score = 0, prev = Some 3, gene = example_gene 4 shell_family\<rparr>,
      \<lparr>state = 0, score = 0, prev = Some 4, gene = example_gene 5 shell_family\<rparr>,
      \<lparr>state = 0, score = 0, prev = Some 5, gene = example_gene 6 shell_family\<rparr>]"

subsection \<open>Notions of the extraction loop\<close>

text \<open>
  The genes of the nodes that are still in a region (state other than 0), as a multiset:
  what the extractions to come can still append to a region.
\<close>

definition live_genes :: "matrice_node list \<Rightarrow> gene multiset" where
  "live_genes matrix = mset (map gene (filter (\<lambda>n. state n \<noteq> 0) matrix))"

text \<open>
  An upper bound of the number of nodes that the loop of \<^verbatim>\<open>rewrite_matrix\<close> still visits
  from \<open>index\<close>: up to a node \<open>t\<close> of state 0 on a circular contig, up to the end otherwise.
\<close>

definition steps_left :: "bool \<Rightarrow> nat \<Rightarrow> nat \<Rightarrow> nat \<Rightarrow> nat" where
  "steps_left circular t n index =
     (if circular then (if index \<le> t then t - index else t + n - index) else n - index)"

text \<open>
  The name that \<^verbatim>\<open>extract_rgp\<close> gives to the region number \<open>i\<close> whose first appended gene is
  \<open>g\<close>.
\<close>

definition rgp_name :: "contig \<Rightarrow> string \<Rightarrow> gene \<Rightarrow> nat \<Rightarrow> string" where
  "rgp_name contig naming g i =
     (if naming = ''contig'' then contig_name contig
      else organism g @ ''_'' @ contig_name contig) @ ''_RGP_'' @ str i"

text \<open>
  A linear contig with three runs of shell genes, of 4, 3 and 4 genes (the last run holds
  a persistent gene), separated by persistent genes, and its matrix. With \<^verbatim>\<open>min_score = 2\<close>
  the runs are extracted in this order; the second one spans 2900 bp.
\<close>

definition small_runs_contig :: contig where
  "small_runs_contig = example_contig False
     (replicate 4 shell_family @ replicate 3 persistent_family
      @ replicate 3 shell_family @ replicate 2 persistent_family
      @ [shell_family, shell_family, persistent_family, shell_family])"

definition small_runs_matrix :: "matrice_node list" where
  "small_runs_matrix =
     (case init_matrices small_runs_contig {} 3 1 of Inl e \<Rightarrow> [] | Inr m \<Rightarrow> m)"

section \<open>Properties of the similarity metrics\<close>

lemma fcard_inter_le_min: "fcard (A |\<inter>| B) \<le> min (fcard A) (fcard B)"
  by (simp add: fcard_mono)

lemma fcard_pos: "A \<noteq> {||} \<Longrightarrow> 0 < fcard A"
  by (metis fcard_fempty fcard_seteq fempty_fsubsetI le_zero_eq not_gr_zero)

lemma ratio_unit:
  "i \<le> d \<Longrightarrow> 0 < d \<Longrightarrow> 0 \<le> (of_nat i :: rat) / of_nat d \<and> (of_nat i :: rat) / of_nat d \<le> 1"
  by simp

lemma compute_grr_Inr:
  "0 < mode (fcard A) (fcard B) \<Longrightarrow>
   compute_grr A B mode = Inr (of_nat (fcard (A |\<inter>| B)) / of_nat (mode (fcard A) (fcard B)))"
proof -
  assume "0 < mode (fcard A) (fcard B)"
  then have "mode (fcard A) (fcard B) \<noteq> 0" by linarith
  then show ?thesis unfolding compute_grr_def by (simp only: if_False)
qed

lemma compute_jaccard_index_Inr:
  "0 < fcard (A |\<union>| B) \<Longrightarrow>
   compute_jaccard_index A B = Inr (of_nat (fcard (A |\<inter>| B)) / of_nat (fcard (A |\<union>| B)))"
proof -
  assume "0 < fcard (A |\<union>| B)"
  then have "fcard (A |\<union>| B) \<noteq> 0" by linarith
  then show ?thesis unfolding compute_jaccard_index_def by (simp only: if_False)
qed

text \<open>
  Claim C3, as stated: for two regions that share a family, the max-GRR value is at least
  the min-GRR value. The code divides the size of the intersection by the smaller size for
  min-GRR and by the larger size for max-GRR, so the order is the other way round: for the
  family sets \<open>{1, 2}\<close> and \<open>{1}\<close>, min-GRR is \<open>1\<close> and max-GRR is \<open>1/2\<close>.
\<close>

theorem C3_counterexample:
  "compute_grr {|1::nat, 2|} {|1|} max = Inr (1/2)
   \<and> compute_grr {|1::nat, 2|} {|1|} min = Inr 1
   \<and> \<not> ((1::rat) \<le> 1/2)"
proof -
  have i: "{|1::nat, 2|} |\<inter>| {|1|} = {|1|}" by auto
  show ?thesis by (simp add: compute_grr_def i fcard_finsert_if fcard_fempty)
qed

text \<open>
  Claim C3, amended: for two regions whose family sets share at least one family, both GRR
  values are computed (no division by zero), the min-GRR value is greater than or equal to
  the max-GRR value, and both lie in \<open>[0, 1]\<close> (max-GRR is even positive).
\<close>

theorem C3_min_grr_ge_max_grr:
  assumes "A |\<inter>| B \<noteq> {||}"
  shows "\<exists>mn mx. compute_grr A B min = Inr mn \<and> compute_grr A B max = Inr mx
           \<and> mx \<le> mn \<and> 0 < mx \<and> mn \<le> 1"
proof -
  let ?i = "fcard (A |\<inter>| B)"
  let ?lo = "min (fcard A) (fcard B)"
  let ?hi = "max (fcard A) (fcard B)"
  have ipos: "0 < ?i" using assms by (rule fcard_pos)
  have ile: "?i \<le> ?lo" by (rule fcard_inter_le_min)
  have lopos: "0 < ?lo" using ipos ile by linarith
  have lohi: "?lo \<le> ?hi" by simp
  have hipos: "0 < ?hi" using lopos lohi by linarith
  have order: "(of_nat ?i :: rat) / of_nat ?hi \<le> of_nat ?i / of_nat ?lo"
    using lopos lohi
    by (intro divide_left_mono)
       (simp_all only: of_nat_le_iff of_nat_0_le_iff of_nat_0_less_iff mult_pos_pos hipos)
  have upper: "(of_nat ?i :: rat) / of_nat ?lo \<le> 1"
    using ratio_unit [OF ile lopos] by blast
  have lower: "0 < (of_nat ?i :: rat) / of_nat ?hi"
    using ipos hipos by (simp only: zero_less_divide_iff of_nat_0_less_iff) simp
  show ?thesis
    using order upper lower compute_grr_Inr [of min, OF lopos] compute_grr_Inr [of max, OF hipos]
    by blast
qed

theorem C3_witness:
  "{|1::nat, 2|} |\<inter>| {|2, 3, 4|} \<noteq> {||}
   \<and> compute_grr {|1::nat, 2|} {|2, 3, 4|} min = Inr (1/2)
   \<and> compute_grr {|1::nat, 2|} {|2, 3, 4|} max = Inr (1/3)"
proof -
  have i: "{|1::nat, 2|} |\<inter>| {|2, 3, 4|} = {|2|}" by auto
  show ?thesis using C3_min_grr_ge_max_grr [of "{|1::nat, 2|}" "{|2, 3, 4|}"]
    by (simp add: compute_grr_def i fcard_finsert_if fcard_fempty)
qed

text \<open>
  Claim C7: for all non-empty family sets \<open>A\<close> and \<open>B\<close>, the GRR with \<open>min\<close>, the GRR with
  \<open>max\<close> and the Jaccard index do not depend on the order of the two sets, each of them is
  computed without error, and each value lies in \<open>[0, 1]\<close>.
\<close>

theorem C7_metrics_symmetric_unit:
  assumes "A \<noteq> {||}" and "B \<noteq> {||}"
  shows "compute_grr A B min = compute_grr B A min
       \<and> compute_grr A B max = compute_grr B A max
       \<and> compute_jaccard_index A B = compute_jaccard_index B A
       \<and> (\<exists>v. compute_grr A B min = Inr v \<and> 0 \<le> v \<and> v \<le> 1)
       \<and> (\<exists>v. compute_grr A B max = Inr v \<and> 0 \<le> v \<and> v \<le> 1)
       \<and> (\<exists>v. compute_jaccard_index A B = Inr v \<and> 0 \<le> v \<and> v \<le> 1)"
proof -
  have sym_min: "compute_grr A B min = compute_grr B A min"
    by (simp only: compute_grr_def inf_commute [of A B] min.commute [of "fcard A" "fcard B"])
  have sym_max: "compute_grr A B max = compute_grr B A max"
    by (simp only: compute_grr_def inf_commute [of A B] max.commute [of "fcard A" "fcard B"])
  have sym_j: "compute_jaccard_index A B = compute_jaccard_index B A"
    by (simp only: compute_jaccard_index_def inf_commute [of A B] sup_commute [of A B])
  have pa: "0 < fcard A" and pb: "0 < fcard B" using assms by (simp_all add: fcard_pos)
  have i_min: "fcard (A |\<inter>| B) \<le> min (fcard A) (fcard B)" by (rule fcard_inter_le_min)
  have i_max: "fcard (A |\<inter>| B) \<le> max (fcard A) (fcard B)" using i_min by linarith
  have i_un: "fcard (A |\<inter>| B) \<le> fcard (A |\<union>| B)" by (simp add: fcard_mono le_supI1)
  have pu: "0 < fcard (A |\<union>| B)" using assms by (simp add: fcard_pos)
  have pmin: "0 < min (fcard A) (fcard B)" and pmax: "0 < max (fcard A) (fcard B)"
    using pa pb by linarith+
  have r_min: "\<exists>v. compute_grr A B min = Inr v \<and> 0 \<le> v \<and> v \<le> 1"
    using ratio_unit [OF i_min pmin] compute_grr_Inr [of min, OF pmin] by blast
  have r_max: "\<exists>v. compute_grr A B max = Inr v \<and> 0 \<le> v \<and> v \<le> 1"
    using ratio_unit [OF i_max pmax] compute_grr_Inr [of max, OF pmax] by blast
  have r_j: "\<exists>v. compute_jaccard_index A B = Inr v \<and> 0 \<le> v \<and> v \<le> 1"
    using ratio_unit [OF i_un pu] compute_jaccard_index_Inr [OF pu] by blast
  show ?thesis using sym_min sym_max sym_j r_min r_max r_j by blast
qed

theorem C7_witness:
  "{|1::nat, 2, 3|} \<noteq> {||} \<and> {|2::nat, 3, 4|} \<noteq> {||}
   \<and> compute_grr {|1::nat, 2, 3|} {|2, 3, 4|} min = Inr (2/3)
   \<and> compute_grr {|2, 3, 4|} {|1::nat, 2, 3|} min = Inr (2/3)
   \<and> compute_grr {|1::nat, 2, 3|} {|2, 3, 4|} max = Inr (2/3)
   \<and> compute_jaccard_index {|1::nat, 2, 3|} {|2, 3, 4|} = Inr (1/2)"
proof -
  have i: "{|1::nat, 2, 3|} |\<inter>| {|2, 3, 4|} = {|2, 3|}" by auto
  have i': "{|2::nat, 3, 4|} |\<inter>| {|1, 2, 3|} = {|2, 3|}" by auto
  have u: "{|1::nat, 2, 3|} |\<union>| {|2, 3, 4|} = {|1, 2, 3, 4|}" by auto
  show ?thesis using C7_metrics_symmetric_unit [of "{|1::nat, 2, 3|}" "{|2::nat, 3, 4|}"]
    by (simp add: compute_grr_def compute_jaccard_index_def i i' u fcard_finsert_if fcard_fempty)
qed

lemma compute_rgp_metric_loop_edges:
  "\<exists>edges. compute_rgp_metric_loop pairs acc = Inr edges
     \<and> map (\<lambda>(a, b, m). (a, b)) edges
       = map (\<lambda>(a, b, m). (a, b)) acc
         @ map (\<lambda>((a, fa), (b, fb)). (a, b))
             (filter (\<lambda>((a, fa), (b, fb)). fa |\<inter>| fb \<noteq> {||}) pairs)"
proof (induction pairs acc rule: compute_rgp_metric_loop.induct)
  case (1 acc)
  then show ?case by simp
next
  case (2 rgp_a rgp_a_fam rgp_b rgp_b_fam pairs acc)
  show ?case
  proof (cases "rgp_a_fam |\<inter>| rgp_b_fam = {||}")
    case True
    then show ?thesis using 2 by simp
  next
    case False
    have pi: "0 < fcard (rgp_a_fam |\<inter>| rgp_b_fam)" using False by (rule fcard_pos)
    have "fcard (rgp_a_fam |\<inter>| rgp_b_fam) \<le> min (fcard rgp_a_fam) (fcard rgp_b_fam)"
      by (rule fcard_inter_le_min)
    then have pmin: "0 < min (fcard rgp_a_fam) (fcard rgp_b_fam)" using pi by linarith
    then have pmax: "0 < max (fcard rgp_a_fam) (fcard rgp_b_fam)" by linarith
    have "fcard (rgp_a_fam |\<inter>| rgp_b_fam) \<le> fcard (rgp_a_fam |\<union>| rgp_b_fam)"
      by (simp add: fcard_mono le_supI1)
    then have pun: "0 < fcard (rgp_a_fam |\<union>| rgp_b_fam)" using pi by linarith
    obtain mn where mn: "compute_grr rgp_a_fam rgp_b_fam min = Inr mn"
      using compute_grr_Inr [of min, OF pmin] by blast
    obtain mx where mx: "compute_grr rgp_a_fam rgp_b_fam max = Inr mx"
      using compute_grr_Inr [of max, OF pmax] by blast
    obtain j where j: "compute_jaccard_index rgp_a_fam rgp_b_fam = Inr j"
      using compute_jaccard_index_Inr [OF pun] by blast
    show ?thesis using False mn mx j "2.IH"(1) [OF False mn mx j] by simp
  qed
qed

text \<open>
  Claim C8: \<^verbatim>\<open>compute_rgp_metric\<close> never raises, whatever the pairs (so no division by zero
  occurs), and its edges are, in order, exactly the pairs whose family sets share a family:
  a pair with an empty intersection produces no edge.
\<close>

theorem C8_no_edge_without_shared_family:
  "\<exists>edges. compute_rgp_metric pairs = Inr edges
     \<and> map (\<lambda>(a, b, m). (a, b)) edges
       = map (\<lambda>((a, fa), (b, fb)). (a, b))
           (filter (\<lambda>((a, fa), (b, fb)). fa |\<inter>| fb \<noteq> {||}) pairs)"
  using compute_rgp_metric_loop_edges [of pairs "[]"] by (simp add: compute_rgp_metric_def)

section \<open>Properties of the check for former predictions\<close>

text \<open>
  Claim C9: on a pangenome whose status holds the key \<^verbatim>\<open>predictedRGP\<close>,
  \<^verbatim>\<open>check_pangenome_former_rgp\<close> raises if and only if that status is \<^verbatim>\<open>inFile\<close> and
  \<^verbatim>\<open>force\<close> is not set; when the status is \<^verbatim>\<open>inFile\<close> and \<^verbatim>\<open>force\<close> is set, it returns
  the pangenome after the erasure of its RGPs; in every other status it returns the
  pangenome as it was.
\<close>

theorem C9_check_pangenome_former_rgp:
  assumes "status pangenome ''predictedRGP'' = Some s"
  shows "(isl (check_pangenome_former_rgp erase_rgp pangenome force)
            \<longleftrightarrow> s = ''inFile'' \<and> \<not> force)
       \<and> (s = ''inFile'' \<and> force \<longrightarrow>
            check_pangenome_former_rgp erase_rgp pangenome force = Inr (erase_rgp pangenome))
       \<and> (s \<noteq> ''inFile'' \<longrightarrow>
            check_pangenome_former_rgp erase_rgp pangenome force = Inr pangenome)"
  using assms by (simp add: check_pangenome_former_rgp_def)

theorem C9_witness:
  "status \<lparr>status = [''predictedRGP'' \<mapsto> ''inFile'']\<rparr> ''predictedRGP'' = Some ''inFile''
   \<and> check_pangenome_former_rgp (\<lambda>p. p\<lparr>status := [''predictedRGP'' \<mapsto> ''No'']\<rparr>)
        \<lparr>status = [''predictedRGP'' \<mapsto> ''inFile'']\<rparr> True
       = Inr \<lparr>status = [''predictedRGP'' \<mapsto> ''No'']\<rparr>"
  using C9_check_pangenome_former_rgp
          [of "\<lparr>status = [''predictedRGP'' \<mapsto> ''inFile'']\<rparr>" "''inFile''"
              "\<lambda>p. p\<lparr>status := [''predictedRGP'' \<mapsto> ''No'']\<rparr>" True]
  by simp

section \<open>Properties of the first walk of \<^verbatim>\<open>init_matrices\<close>\<close>

lemma modif_of_run:
  "modif_of multi P G (run_length multi gs (length gs)) g
     = (delta multi P G (gs @ [g]) (length gs), run_length multi (gs @ [g]) (Suc (length gs)))"
  by (simp add: modif_of_def delta_def run_length_def penalised_def)

lemma run_length_prefix: "i \<le> length gs \<Longrightarrow> run_length multi (gs @ [g]) i = run_length multi gs i"
  by (simp add: run_length_def)

lemma delta_prefix: "i < length gs \<Longrightarrow> delta multi P G (gs @ [g]) i = delta multi P G gs i"
  by (simp add: delta_def run_length_prefix nth_append)

lemma last_zero_snoc:
  "last_zero (m @ [x]) = (if state x = 0 then Some (length m) else last_zero m)"
proof -
  have "filter (\<lambda>i. state ((m @ [x]) ! i) = 0) (rev [0..<length m])
        = filter (\<lambda>i. state (m ! i) = 0) (rev [0..<length m])"
    by (rule filter_cong) (auto simp: nth_append)
  then show ?thesis by (simp add: last_zero_def)
qed

lemma node_ok_prefix:
  "i < length m \<Longrightarrow> length m = length gs \<Longrightarrow>
   node_ok multi P G (gs @ [g]) (m @ [x]) i = node_ok multi P G gs m i"
  by (cases i) (simp_all add: node_ok_def delta_prefix nth_append)


lemma init_step_mat:
  "mat (init_step multi P G v g)
     = mat v @ [MatriceNode
                  (if 0 \<le> fst (modif_of multi P G (nb_perc v) g)
                          + (if mat v = [] then 0 else score (last (mat v))) then 1 else 0)
                  (fst (modif_of multi P G (nb_perc v) g)
                          + (if mat v = [] then 0 else score (last (mat v))))
                  (if mat v = [] then None else Some (length (mat v) - 1)) g]"
  by (simp add: init_step_def Let_def split_beta)

lemma init_step_nb_perc:
  "nb_perc (init_step multi P G v g) = snd (modif_of multi P G (nb_perc v) g)"
  by (simp add: init_step_def Let_def split_beta)

lemma init_step_curr_state:
  "curr_state (init_step multi P G v g) = Some (state (last (mat (init_step multi P G v g))))"
  by (simp add: init_step_def Let_def split_beta MatriceNode_def)

lemma init_step_zero_ind:
  "zero_ind (init_step multi P G v g)
     = (if state (last (mat (init_step multi P G v g))) = 0 then Some (length (mat v))
        else zero_ind v)"
  by (simp add: init_step_def Let_def split_beta MatriceNode_def)


lemma init_fold_length:
  "length (mat (foldl (init_step multi P G) init_vars0 gs)) = length gs"
  by (induction gs rule: rev_induct) (simp_all add: init_vars0_def init_step_mat)

lemma init_fold_nb_perc:
  "nb_perc (foldl (init_step multi P G) init_vars0 gs) = run_length multi gs (length gs)"
proof (induction gs rule: rev_induct)
  case Nil
  show ?case by (simp add: init_vars0_def run_length_def)
next
  case (snoc g gs)
  show ?case
    by (simp only: foldl_append foldl.simps init_step_nb_perc snoc modif_of_run snd_conv length_append_singleton)
qed

lemma init_fold_zero_ind:
  "zero_ind (foldl (init_step multi P G) init_vars0 gs)
     = last_zero (mat (foldl (init_step multi P G) init_vars0 gs))"
proof (induction gs rule: rev_induct)
  case Nil
  show ?case by (simp add: init_vars0_def last_zero_def)
next
  case (snoc g gs)
  let ?v = "foldl (init_step multi P G) init_vars0 gs"
  obtain x where x: "mat (init_step multi P G ?v g) = mat ?v @ [x]"
    using init_step_mat by blast
  have "zero_ind (init_step multi P G ?v g) = last_zero (mat (init_step multi P G ?v g))"
    unfolding init_step_zero_ind x last_zero_snoc using snoc by simp
  then show ?case by simp
qed

lemma init_fold_curr_state:
  "curr_state (foldl (init_step multi P G) init_vars0 gs)
     = (if gs = [] then None
        else Some (state (last (mat (foldl (init_step multi P G) init_vars0 gs)))))"
proof (cases gs rule: rev_cases)
  case Nil
  then show ?thesis by (simp add: init_vars0_def)
next
  case (snoc ys y)
  then show ?thesis by (simp add: init_step_curr_state)
qed

lemma init_fold_nodes:
  "i < length gs \<Longrightarrow> node_ok multi P G gs (mat (foldl (init_step multi P G) init_vars0 gs)) i"
proof (induction gs rule: rev_induct)
  case Nil
  then show ?case by simp
next
  case (snoc g gs)
  let ?v = "foldl (init_step multi P G) init_vars0 gs"
  let ?pre = "delta multi P G (gs @ [g]) (length gs) + (if gs = [] then 0 else score (last (mat ?v)))"
  let ?node = "MatriceNode (if 0 \<le> ?pre then 1 else 0) ?pre
                 (if gs = [] then None else Some (length gs - 1)) g"
  have len: "length (mat ?v) = length gs" by (rule init_fold_length)
  have empty_iff: "mat ?v = [] \<longleftrightarrow> gs = []" using len by auto
  have nb: "nb_perc ?v = run_length multi gs (length gs)" by (rule init_fold_nb_perc)
  have m: "mat (init_step multi P G ?v g) = mat ?v @ [?node]"
    unfolding init_step_mat nb modif_of_run fst_conv empty_iff len ..
  show ?case
  proof (cases "i < length gs")
    case True
    then have "node_ok multi P G gs (mat ?v) i" by (rule snoc.IH)
    then have "node_ok multi P G (gs @ [g]) (mat ?v @ [?node]) i"
      using True len by (simp add: node_ok_prefix)
    then show ?thesis by (simp add: m)
  next
    case False
    then have i: "i = length gs" using snoc.prems by simp
    have "node_ok multi P G (gs @ [g]) (mat ?v @ [?node]) (length gs)"
    proof (cases "gs = []")
      case True
      then show ?thesis using len by (simp add: node_ok_def MatriceNode_def)
    next
      case False
      then have l: "last (mat ?v) = mat ?v ! (length gs - 1)"
        using len empty_iff by (simp add: last_conv_nth)
      show ?thesis using False len l
        by (simp add: node_ok_def MatriceNode_def nth_append Let_def)
    qed
    then show ?thesis by (simp add: m i)
  qed
qed

text \<open>
  Claim C1: in the walk of \<^verbatim>\<open>init_matrices\<close> over the genes of a contig, node \<open>i\<close> holds
  gene \<open>i\<close> and points to node \<open>i - 1\<close> (to nothing for the first gene); with \<open>delta\<close> equal to
  \<open>- P ^ nb_perc\<close> for a penalised gene, \<open>nb_perc\<close> being the number of penalised genes right
  before it, and to \<open>G\<close> for any other gene, the stored score is
  \<open>max 0 (delta + score of the previous node)\<close> (\<open>0\<close> for a missing previous node) and the
  state is \<open>1\<close> if that sum is not negative, else \<open>0\<close>. On a contig that is not circular this
  walk is the whole of \<^verbatim>\<open>init_matrices\<close>. The statement holds for all integers \<open>P\<close>, \<open>G\<close>.
\<close>

theorem C1_first_pass:
  assumes "i < length (genes contig)"
  shows "let m = mat (init_pass contig multi P G);
             pre = delta multi P G (genes contig) i + (if i = 0 then 0 else score (m ! (i - 1)))
         in length m = length (genes contig)
            \<and> gene (m ! i) = genes contig ! i
            \<and> prev (m ! i) = (if i = 0 then None else Some (i - 1))
            \<and> score (m ! i) = max 0 pre
            \<and> state (m ! i) = (if pre \<ge> 0 then 1 else 0)
            \<and> (\<not> is_circular contig \<longrightarrow> init_matrices contig multi P G = Inr m)"
proof -
  have ok: "node_ok multi P G (genes contig) (mat (init_pass contig multi P G)) i"
    unfolding init_pass_def using assms by (rule init_fold_nodes)
  have len: "length (mat (init_pass contig multi P G)) = length (genes contig)"
    unfolding init_pass_def by (rule init_fold_length)
  have lin: "\<not> is_circular contig \<longrightarrow>
             init_matrices contig multi P G = Inr (mat (init_pass contig multi P G))"
    by (simp add: init_matrices_def Let_def split: option.splits)
  show ?thesis using ok len lin unfolding node_ok_def Let_def by blast
qed

theorem C1_witness:
  "4 < length (genes (example_contig False
         [persistent_family, persistent_family, persistent_family,
          shell_family, shell_family, shell_family, shell_family]))
   \<and> (let m = mat (init_pass (example_contig False
         [persistent_family, persistent_family, persistent_family,
          shell_family, shell_family, shell_family, shell_family]) {} 3 1) in
      score (m ! 4) = max 0 (1 + score (m ! 3)) \<and> score (m ! 4) = 2 \<and> state (m ! 4) = 1)"
proof -
  let ?c = "example_contig False
         [persistent_family, persistent_family, persistent_family,
          shell_family, shell_family, shell_family, shell_family]"
  have h: "4 < length (genes ?c)" by code_simp
  have d: "delta {} 3 1 (genes ?c) 4 = 1" by code_simp
  have v: "score (mat (init_pass ?c {} 3 1) ! 4) = 2" by code_simp
  have w: "score (mat (init_pass ?c {} 3 1) ! 3) = 1" by code_simp
  have s: "state (mat (init_pass ?c {} 3 1) ! 4) = 1" by code_simp
  show ?thesis using h d v w s C1_first_pass [OF h, of "{}" 3 1]
    by (simp add: Let_def)
qed

section \<open>Unfolding the loop of \<^verbatim>\<open>mk_regions\<close>\<close>

lemma str_0: "str 0 = ''0''"
  by code_simp

lemma str_1: "str 1 = ''1''"
  by code_simp

lemma mk_regions_loop_exit:
  "val < min_score \<Longrightarrow>
   mk_regions_loop contig multi min_length min_score persistent continuity naming
     matrix contig_regions val index = Some (Inr contig_regions)"
  by (subst mk_regions_loop.simps) simp

lemma mk_regions_loop_step:
  "min_score \<le> val \<Longrightarrow>
   mk_regions_body contig multi min_length persistent continuity naming
     matrix contig_regions val index = Some (Inr (matrix', contig_regions', val', index')) \<Longrightarrow>
   mk_regions_loop contig multi min_length min_score persistent continuity naming
     matrix contig_regions val index
   = mk_regions_loop contig multi min_length min_score persistent continuity naming
       matrix' contig_regions' val' index'"
  by (subst mk_regions_loop.simps) simp

lemma mk_regions_loop_raise:
  "min_score \<le> val \<Longrightarrow>
   mk_regions_body contig multi min_length persistent continuity naming
     matrix contig_regions val index = Some (Inl e) \<Longrightarrow>
   mk_regions_loop contig multi min_length min_score persistent continuity naming
     matrix contig_regions val index = Some (Inl e)"
  by (subst mk_regions_loop.simps) simp

section \<open>The scenario of three persistent and four variable genes\<close>

text \<open>
  Claim C2, as stated: on the linear contig \<open>[persistent, persistent, persistent, variable,
  variable, variable, variable]\<close> with penalty 3 and gain 1, all node scores are 0 and
  \<^verbatim>\<open>mk_regions\<close> with \<^verbatim>\<open>min_score = 4\<close> extracts no region. The code clamps every score
  before the next node reads it, so the scores are \<open>[0, 0, 0, 1, 2, 3, 4]\<close>; the last node
  reaches 4 and a region of the four variable genes is extracted (and kept, with example
  genes 1000 bp apart and \<^verbatim>\<open>min_length = 3000\<close>).
\<close>

theorem C2_counterexample:
  "map_sum id (map score) (init_matrices scenario_contig {} 3 1) = Inr [0, 0, 0, 1, 2, 3, 4]
   \<and> contig_rgp scenario_contig {} 3 1 3000 4 ''contig''
       = Some (Inr [\<lparr>region_name = ''contig_RGP_0'',
                     region_genes = [example_gene 6 shell_family, example_gene 5 shell_family,
                                     example_gene 4 shell_family, example_gene 3 shell_family],
                     region_score = 4\<rparr>])"
  by code_simp

text \<open>
  Claim C2, amended: for every linear contig of seven genes whose first three families are
  persistent and whose last four are not, with an empty multigenic set, penalty 3 and gain
  1, the node scores are \<open>[0, 0, 0, 1, 2, 3, 4]\<close>, and the prediction with \<^verbatim>\<open>min_score = 4\<close>
  and the naming by contig makes exactly one extraction, the four variable genes from the
  last to the first with score 4; this region is returned if and only if the stop of the
  last gene minus the start of the fourth gene exceeds \<^verbatim>\<open>min_length\<close>.
\<close>

theorem C2_scenario:
  assumes gs: "genes contig = [g0, g1, g2, g3, g4, g5, g6]"
    and lin: "\<not> is_circular contig"
    and p: "named_partition (family g0) = ''persistent''" "named_partition (family g1) = ''persistent''"
           "named_partition (family g2) = ''persistent''"
    and v: "named_partition (family g3) \<noteq> ''persistent''" "named_partition (family g4) \<noteq> ''persistent''"
           "named_partition (family g5) \<noteq> ''persistent''" "named_partition (family g6) \<noteq> ''persistent''"
  shows "map_sum id (map score) (init_matrices contig {} 3 1) = Inr [0, 0, 0, 1, 2, 3, 4]
       \<and> contig_rgp contig {} 3 1 min_length 4 ''contig''
           = Some (Inr (if stop g6 - start g3 > min_length
                        then [\<lparr>region_name = contig_name contig @ ''_RGP_0'',
                               region_genes = [g6, g5, g4, g3], region_score = 4\<rparr>]
                        else []))"
proof -
  let ?m = "[\<lparr>state = 0, score = 0, prev = None, gene = g0\<rparr>,
             \<lparr>state = 0, score = 0, prev = Some 0, gene = g1\<rparr>,
             \<lparr>state = 0, score = 0, prev = Some 1, gene = g2\<rparr>,
             \<lparr>state = 1, score = 1, prev = Some 2, gene = g3\<rparr>,
             \<lparr>state = 1, score = 2, prev = Some 3, gene = g4\<rparr>,
             \<lparr>state = 1, score = 3, prev = Some 4, gene = g5\<rparr>,
             \<lparr>state = 1, score = 4, prev = Some 5, gene = g6\<rparr>]"
  let ?m' = "[\<lparr>state = 0, score = 0, prev = None, gene = g0\<rparr>,
             \<lparr>state = 0, score = 0, prev = Some 0, gene = g1\<rparr>,
             \<lparr>state = 0, score = 0, prev = Some 1, gene = g2\<rparr>,
             \<lparr>state = 0, score = 0, prev = Some 2, gene = g3\<rparr>,
             \<lparr>state = 0, score = 0, prev = Some 3, gene = g4\<rparr>,
             \<lparr>state = 0, score = 0, prev = Some 4, gene = g5\<rparr>,
             \<lparr>state = 0, score = 0, prev = Some 5, gene = g6\<rparr>]"
  have pass: "mat (init_pass contig {} 3 1) = ?m"
    using p v by (simp add: init_pass_def gs init_step_def modif_of_def MatriceNode_def init_vars0_def)
  have init: "init_matrices contig {} 3 1 = Inr ?m"
    using lin pass by (simp add: init_matrices_def Let_def split: option.splits)
  have mx: "max_index_node ?m = Inr (4, 6)"
    by (simp add: max_index_node_def enumerate_eq_zip upt_rec)
  have mx': "max_index_node ?m' = Inr (0, 6)"
    by (simp add: max_index_node_def enumerate_eq_zip upt_rec)
  have ex: "extract_loop ?m 6 [] = ([g6, g5, g4, g3], ?m')"
    by (simp add: extract_loop.simps)
  have rw: "rewrite_matrix contig ?m' 6 3 1 {} = Some (Inr ?m')"
    by (simp add: rewrite_matrix_def)
  have body: "mk_regions_body contig {} min_length 3 1 ''contig'' ?m [] 4 6
     = Some (Inr (?m', (if stop g6 - start g3 > min_length
                        then [\<lparr>region_name = contig_name contig @ ''_RGP_0'',
                               region_genes = [g6, g5, g4, g3], region_score = 4\<rparr>]
                        else []), 0, 6))"
    by (simp add: mk_regions_body_def extract_rgp_def ex [simplified] rw [simplified]
                  mx' [simplified] Region_def str_0)
  let ?rs = "if stop g6 - start g3 > min_length
             then [\<lparr>region_name = contig_name contig @ ''_RGP_0'',
                    region_genes = [g6, g5, g4, g3], region_score = 4\<rparr>]
             else []"
  have "mk_regions_loop contig {} min_length 4 3 1 ''contig'' ?m [] 4 6
        = mk_regions_loop contig {} min_length 4 3 1 ''contig'' ?m' ?rs 0 6"
    by (rule mk_regions_loop_step [OF _ body]) simp
  also have "\<dots> = Some (Inr ?rs)"
    by (rule mk_regions_loop_exit) simp
  finally have loop: "mk_regions contig ?m {} min_length 4 3 1 ''contig'' = Some (Inr ?rs)"
    unfolding mk_regions_def mx by (simp only: sum.case prod.case)
  have ne: "length (genes contig) \<noteq> 0" by (simp add: gs)
  have scores: "map_sum id (map score) (init_matrices contig {} 3 1) = Inr [0, 0, 0, 1, 2, 3, 4]"
    by (simp add: init)
  have regions: "contig_rgp contig {} 3 1 min_length 4 ''contig'' = Some (Inr ?rs)"
    unfolding contig_rgp_def init using ne loop by (simp only: if_True sum.case simp_thms)
  show ?thesis using scores regions by (rule conjI)
qed

theorem C2_witness:
  "genes scenario_contig
     = [example_gene 0 persistent_family, example_gene 1 persistent_family,
        example_gene 2 persistent_family, example_gene 3 shell_family,
        example_gene 4 shell_family, example_gene 5 shell_family, example_gene 6 shell_family]
   \<and> \<not> is_circular scenario_contig
   \<and> named_partition (family (example_gene 0 persistent_family)) = ''persistent''
   \<and> named_partition (family (example_gene 3 shell_family)) \<noteq> ''persistent''
   \<and> stop (example_gene 6 shell_family) - start (example_gene 3 shell_family) > 3000
   \<and> contig_rgp scenario_contig {} 3 1 3000 4 ''contig''
       = Some (Inr [\<lparr>region_name = contig_name scenario_contig @ ''_RGP_0'',
                     region_genes = [example_gene 6 shell_family, example_gene 5 shell_family,
                                     example_gene 4 shell_family, example_gene 3 shell_family],
                     region_score = 4\<rparr>])"
proof -
  have gs: "genes scenario_contig
     = [example_gene 0 persistent_family, example_gene 1 persistent_family,
        example_gene 2 persistent_family, example_gene 3 shell_family,
        example_gene 4 shell_family, example_gene 5 shell_family, example_gene 6 shell_family]"
    by code_simp
  have lin: "\<not> is_circular scenario_contig" by code_simp
  have p: "named_partition (family (example_gene i persistent_family)) = ''persistent''" for i
    by (simp add: example_gene_def persistent_family_def)
  have v: "named_partition (family (example_gene i shell_family)) \<noteq> ''persistent''" for i
    by (simp add: example_gene_def shell_family_def)
  have len: "stop (example_gene 6 shell_family) - start (example_gene 3 shell_family) > 3000"
    by (simp add: example_gene_def)
  show ?thesis
    using gs lin p [of 0] v [of 3] len C2_scenario [OF gs lin p p p v v v v, of 3000]
    by simp
qed

section \<open>The second walk of \<^verbatim>\<open>init_matrices\<close> on a circular contig\<close>

lemma wrap_loop_done:
  "wrap_loop multi P G zero prv 0 m c nb = Inr m"
  by (subst wrap_loop.simps) simp

lemma wrap_loop_stop:
  "cur \<noteq> 0 \<Longrightarrow> zero < length m \<Longrightarrow> wrap_loop multi P G zero prv cur m zero nb = Inr m"
  by (subst wrap_loop.simps) simp

lemma wrap_loop_step:
  "cur \<noteq> 0 \<Longrightarrow> c < length m \<Longrightarrow> c \<noteq> zero \<Longrightarrow>
   wrap_loop multi P G zero prv cur m c nb
   = wrap_loop multi P G zero prv
       (if fst (modif_of multi P G nb (gene (m ! c))) + score (m ! prv) \<ge> 0 then 1 else 0)
       (m[c := changes (m ! c) (fst (modif_of multi P G nb (gene (m ! c))) + score (m ! prv))])
       (c + 1) (snd (modif_of multi P G nb (gene (m ! c))))"
  by (subst wrap_loop.simps) (simp add: split_beta Let_def)

lemma changes_fields:
  "gene (changes n s) = gene n" "prev (changes n s) = prev n"
  "state (changes n s) = (if s \<ge> 0 then 1 else 0)" "score (changes n s) = max 0 s"
  by (simp_all add: changes_def)

lemma wrap_loop_walk:
  assumes "c \<le> zero" and "zero < length m" and "cur \<noteq> 0"
  shows "\<exists>m' k. wrap_loop multi P G zero prv cur m c nb = Inr m' \<and> length m' = length m
           \<and> c \<le> k \<and> k \<le> zero
           \<and> (\<forall>j<length m. j < c \<or> k \<le> j \<longrightarrow> m' ! j = m ! j)
           \<and> (\<forall>j. c \<le> j \<and> j < k \<longrightarrow> gene (m' ! j) = gene (m ! j) \<and> prev (m' ! j) = prev (m ! j))
           \<and> (\<forall>j. c \<le> j \<and> j + 1 < k \<longrightarrow> state (m' ! j) = 1)
           \<and> (k = zero \<or> (c < k \<and> state (m' ! (k - 1)) = 0))
           \<and> (c < k \<longrightarrow> m' ! c = changes (m ! c)
                        (fst (modif_of multi P G nb (gene (m ! c))) + score (m ! prv)))"
  using assms
proof (induction "zero - c" arbitrary: c m nb cur)
  case 0
  then have cz: "c = zero" by simp
  have "wrap_loop multi P G zero prv cur m c nb = Inr m"
    unfolding cz using "0.prems" by (intro wrap_loop_stop)
  then show ?case using cz by auto
next
  case (Suc d)
  let ?cs = "fst (modif_of multi P G nb (gene (m ! c))) + score (m ! prv)"
  let ?m1 = "m[c := changes (m ! c) ?cs]"
  let ?nb = "snd (modif_of multi P G nb (gene (m ! c)))"
  from Suc.hyps(2) Suc.prems have cz: "c < zero" and cl: "c < length m" by simp_all
  have step: "wrap_loop multi P G zero prv cur m c nb
     = wrap_loop multi P G zero prv (if ?cs \<ge> 0 then 1 else 0) ?m1 (c + 1) ?nb"
    using Suc.prems(3) cl cz by (intro wrap_loop_step) simp_all
  have m1c: "?m1 ! c = changes (m ! c) ?cs" using cl by simp
  show ?case
  proof (cases "?cs \<ge> 0")
    case False
    then have res: "wrap_loop multi P G zero prv cur m c nb = Inr ?m1"
      unfolding step by (simp add: wrap_loop_done)
    have st: "state (?m1 ! c) = 0" using False m1c by (simp add: changes_fields)
    have a: "\<forall>j<length m. j < c \<or> c + 1 \<le> j \<longrightarrow> ?m1 ! j = m ! j"
      by (auto simp: nth_list_update)
    have b: "\<forall>j. c \<le> j \<and> j < c + 1 \<longrightarrow>
                 gene (?m1 ! j) = gene (m ! j) \<and> prev (?m1 ! j) = prev (m ! j)"
    proof (intro allI impI)
      fix j assume "c \<le> j \<and> j < c + 1"
      then have "j = c" by simp
      then show "gene (?m1 ! j) = gene (m ! j) \<and> prev (?m1 ! j) = prev (m ! j)"
        using m1c by (simp add: changes_fields)
    qed
    have c': "\<forall>j. c \<le> j \<and> j + 1 < c + 1 \<longrightarrow> state (?m1 ! j) = 1" by simp
    have d': "c + 1 = zero \<or> (c < c + 1 \<and> state (?m1 ! (c + 1 - 1)) = 0)" using st by simp
    show ?thesis
      apply (rule exI [of _ ?m1], rule exI [of _ "c + 1"])
      using res cz a b c' d' m1c by simp
  next
    case True
    have d: "d = zero - (c + 1)" using Suc.hyps(2) by simp
    have "\<exists>m' k. wrap_loop multi P G zero prv 1 ?m1 (c + 1) ?nb = Inr m' \<and> length m' = length ?m1
           \<and> c + 1 \<le> k \<and> k \<le> zero
           \<and> (\<forall>j<length ?m1. j < c + 1 \<or> k \<le> j \<longrightarrow> m' ! j = ?m1 ! j)
           \<and> (\<forall>j. c + 1 \<le> j \<and> j < k \<longrightarrow> gene (m' ! j) = gene (?m1 ! j) \<and> prev (m' ! j) = prev (?m1 ! j))
           \<and> (\<forall>j. c + 1 \<le> j \<and> j + 1 < k \<longrightarrow> state (m' ! j) = 1)
           \<and> (k = zero \<or> (c + 1 < k \<and> state (m' ! (k - 1)) = 0))
           \<and> (c + 1 < k \<longrightarrow> m' ! (c + 1) = changes (?m1 ! (c + 1))
                        (fst (modif_of multi P G ?nb (gene (?m1 ! (c + 1)))) + score (?m1 ! prv)))"
      using cz Suc.prems(2) by (intro Suc.hyps(1) [OF d]) simp_all
    then obtain m' k where
      res: "wrap_loop multi P G zero prv 1 ?m1 (c + 1) ?nb = Inr m'"
      and len: "length m' = length ?m1"
      and k: "c + 1 \<le> k" "k \<le> zero"
      and same: "\<forall>j<length ?m1. j < c + 1 \<or> k \<le> j \<longrightarrow> m' ! j = ?m1 ! j"
      and kept: "\<forall>j. c + 1 \<le> j \<and> j < k \<longrightarrow> gene (m' ! j) = gene (?m1 ! j) \<and> prev (m' ! j) = prev (?m1 ! j)"
      and inr: "\<forall>j. c + 1 \<le> j \<and> j + 1 < k \<longrightarrow> state (m' ! j) = 1"
      and stop: "k = zero \<or> (c + 1 < k \<and> state (m' ! (k - 1)) = 0)"
      by blast
    have res': "wrap_loop multi P G zero prv cur m c nb = Inr m'"
      unfolding step using True res by simp
    have mc: "m' ! c = changes (m ! c) ?cs" using same cl m1c by simp
    have a: "\<forall>j<length m. j < c \<or> k \<le> j \<longrightarrow> m' ! j = m ! j"
      using same k by (auto simp: nth_list_update)
    have b: "\<forall>j. c \<le> j \<and> j < k \<longrightarrow> gene (m' ! j) = gene (m ! j) \<and> prev (m' ! j) = prev (m ! j)"
    proof (intro allI impI)
      fix j assume j: "c \<le> j \<and> j < k"
      show "gene (m' ! j) = gene (m ! j) \<and> prev (m' ! j) = prev (m ! j)"
      proof (cases "j = c")
        case True
        then show ?thesis using mc by (simp add: changes_fields)
      next
        case False
        then have "c + 1 \<le> j \<and> j < k" using j by simp
        then show ?thesis using kept False by (simp add: nth_list_update)
      qed
    qed
    have c': "\<forall>j. c \<le> j \<and> j + 1 < k \<longrightarrow> state (m' ! j) = 1"
    proof (intro allI impI)
      fix j assume j: "c \<le> j \<and> j + 1 < k"
      show "state (m' ! j) = 1"
      proof (cases "j = c")
        case True
        then show ?thesis using mc \<open>?cs \<ge> 0\<close> by (simp add: changes_fields)
      next
        case False
        then show ?thesis using inr j by simp
      qed
    qed
    have d': "k = zero \<or> (c < k \<and> state (m' ! (k - 1)) = 0)" using stop by auto
    show ?thesis
      apply (rule exI [of _ m'], rule exI [of _ k])
      using res' len k a b c' d' mc by simp
  qed
qed

lemma last_zero_SomeD:
  "last_zero m = Some z \<Longrightarrow>
   z < length m \<and> state (m ! z) = 0 \<and> (\<forall>j<length m. z < j \<longrightarrow> state (m ! j) \<noteq> 0)"
proof (induction m rule: rev_induct)
  case Nil
  then show ?case by (simp add: last_zero_def)
next
  case (snoc x m)
  show ?case
  proof (cases "state x = 0")
    case True
    then have "z = length m" using snoc.prems by (simp add: last_zero_snoc)
    then show ?thesis using True by simp
  next
    case False
    then have "last_zero m = Some z" using snoc.prems by (simp add: last_zero_snoc)
    then have ih: "z < length m \<and> state (m ! z) = 0 \<and> (\<forall>j<length m. z < j \<longrightarrow> state (m ! j) \<noteq> 0)"
      by (rule snoc.IH)
    then show ?thesis using False by (auto simp: nth_append less_Suc_eq)
  qed
qed

text \<open>
  Claim C5, as stated: the second walk stops when the state leaves in-region or when it
  reaches the first node that had state 0 in the first walk. \<^verbatim>\<open>zero_ind\<close> is reassigned at
  every node of state 0, so it is the last such node. On the circular contig of two
  persistent and five shell genes (penalty 3, gain 1) the first walk gives the states
  \<open>[0, 0, 1, 1, 1, 1, 1]\<close>: the first node of state 0 is node 0, the last is node 1. The
  second walk does not stop at node 0: it gives it the score \<open>5 - 1 = 4\<close> and state 1, and
  stops at node 1.
\<close>

theorem C5_counterexample:
  "is_circular circular_contig
   \<and> map state (mat (init_pass circular_contig {} 3 1)) = [0, 0, 1, 1, 1, 1, 1]
   \<and> first_zero (mat (init_pass circular_contig {} 3 1)) = Some 0
   \<and> last_zero (mat (init_pass circular_contig {} 3 1)) = Some 1
   \<and> map_sum id (map state) (init_matrices circular_contig {} 3 1) = Inr [1, 0, 1, 1, 1, 1, 1]
   \<and> map_sum id (map score) (init_matrices circular_contig {} 3 1) = Inr [4, 0, 1, 2, 3, 4, 5]"
  by code_simp

text \<open>
  Claim C5, amended: when the contig is circular, the first walk ends in-region (the last
  node has a state other than 0) and some node has state 0, \<open>z\<close> being the last of them,
  then \<^verbatim>\<open>init_matrices\<close> returns a matrix in which the first node points to the last one and
  the nodes \<open>0, \<dots>, k - 1\<close> have been walked again, for some \<open>k \<le> z\<close>: every walked node but
  the last one is in-region, and the walk stopped either at \<open>z\<close>, the last node that had
  state 0 in the first walk (\<open>k = z\<close>), or because node \<open>k - 1\<close> left the in-region state.
  The nodes from \<open>k\<close> on are those of the first walk. The score of node 0, when walked,
  continues from the score of the last node.
\<close>

theorem C5_rewalk_to_last_zero:
  assumes circ: "is_circular contig"
    and m0: "m0 = mat (init_pass contig multi P G)"
    and inreg: "m0 \<noteq> [] \<and> state (last m0) \<noteq> 0"
    and zero: "last_zero m0 = Some z"
  shows "\<exists>m k. init_matrices contig multi P G = Inr m \<and> length m = length m0 \<and> k \<le> z
           \<and> prev (m ! 0) = Some (length m0 - 1)
           \<and> (\<forall>j<length m0. k \<le> j \<and> 0 < j \<longrightarrow> m ! j = m0 ! j)
           \<and> (\<forall>j<k. gene (m ! j) = gene (m0 ! j) \<and> (0 < j \<longrightarrow> prev (m ! j) = prev (m0 ! j)))
           \<and> (\<forall>j. j + 1 < k \<longrightarrow> state (m ! j) = 1)
           \<and> (k = z \<or> (0 < k \<and> state (m ! (k - 1)) = 0))
           \<and> (0 < k \<longrightarrow>
                 score (m ! 0)
                   = max 0 (fst (modif_of multi P G 0 (gene (m0 ! 0))) + score (last m0))
               \<and> state (m ! 0)
                   = (if fst (modif_of multi P G 0 (gene (m0 ! 0))) + score (last m0) \<ge> 0
                      then 1 else 0))
           \<and> (k = 0 \<longrightarrow> state (m ! 0) = 0 \<and> score (m ! 0) = score (m0 ! 0))"
proof -
  let ?v = "init_pass contig multi P G"
  let ?n = "length m0"
  let ?m1 = "m0[0 := (m0 ! 0)\<lparr>prev := Some (?n - 1)\<rparr>]"
  let ?cs = "fst (modif_of multi P G 0 (gene (m0 ! 0))) + score (last m0)"
  have gs: "genes contig \<noteq> []"
    using inreg m0 init_fold_length [of multi P G "genes contig"] by (auto simp: init_pass_def)
  have zi: "zero_ind ?v = Some z"
    using zero m0 init_fold_zero_ind [of multi P G "genes contig"] by (simp add: init_pass_def)
  have cs: "curr_state ?v = Some (state (last m0))"
    using gs m0 init_fold_curr_state [of multi P G "genes contig"] by (simp add: init_pass_def)
  have zD: "z < ?n" "state (m0 ! z) = 0" "\<forall>j<?n. z < j \<longrightarrow> state (m0 ! j) \<noteq> 0"
    using last_zero_SomeD [OF zero] by simp_all
  have npos: "0 < ?n" using inreg by simp
  have lastn: "last m0 = m0 ! (?n - 1)" using inreg by (simp add: last_conv_nth)
  have zlast: "z \<noteq> ?n - 1" using zD(2) inreg lastn by auto
  have init: "init_matrices contig multi P G
                = wrap_loop multi P G z (?n - 1) (state (last m0)) ?m1 0 0"
    using circ inreg zi cs m0 by (simp add: init_matrices_def Let_def)
  have walk: "\<exists>m' k. wrap_loop multi P G z (?n - 1) (state (last m0)) ?m1 0 0 = Inr m'
           \<and> length m' = length ?m1
           \<and> 0 \<le> k \<and> k \<le> z
           \<and> (\<forall>j<length ?m1. j < 0 \<or> k \<le> j \<longrightarrow> m' ! j = ?m1 ! j)
           \<and> (\<forall>j. 0 \<le> j \<and> j < k \<longrightarrow> gene (m' ! j) = gene (?m1 ! j) \<and> prev (m' ! j) = prev (?m1 ! j))
           \<and> (\<forall>j. 0 \<le> j \<and> j + 1 < k \<longrightarrow> state (m' ! j) = 1)
           \<and> (k = z \<or> (0 < k \<and> state (m' ! (k - 1)) = 0))
           \<and> (0 < k \<longrightarrow> m' ! 0 = changes (?m1 ! 0)
                        (fst (modif_of multi P G 0 (gene (?m1 ! 0))) + score (?m1 ! (?n - 1))))"
    using zD(1) inreg by (intro wrap_loop_walk) simp_all
  then obtain m' k where
    res: "wrap_loop multi P G z (?n - 1) (state (last m0)) ?m1 0 0 = Inr m'"
    and len: "length m' = ?n"
    and kz: "k \<le> z"
    and same: "\<forall>j<?n. k \<le> j \<longrightarrow> m' ! j = ?m1 ! j"
    and kept: "\<forall>j. j < k \<longrightarrow> gene (m' ! j) = gene (?m1 ! j) \<and> prev (m' ! j) = prev (?m1 ! j)"
    and inr: "\<forall>j. j + 1 < k \<longrightarrow> state (m' ! j) = 1"
    and stop: "k = z \<or> (0 < k \<and> state (m' ! (k - 1)) = 0)"
    and first: "0 < k \<longrightarrow> m' ! 0 = changes (?m1 ! 0)
                        (fst (modif_of multi P G 0 (gene (?m1 ! 0))) + score (?m1 ! (?n - 1)))"
    by (simp only: length_list_update not_less_zero simp_thms le0) blast
  have m1_0: "gene (?m1 ! 0) = gene (m0 ! 0)" "prev (?m1 ! 0) = Some (?n - 1)"
             "state (?m1 ! 0) = state (m0 ! 0)" "score (?m1 ! 0) = score (m0 ! 0)"
    using npos by simp_all
  have m1_j: "0 < j \<Longrightarrow> ?m1 ! j = m0 ! j" for j by simp
  have m1_last: "score (?m1 ! (?n - 1)) = score (last m0)"
    using npos lastn by (cases "?n - 1 = 0") (simp_all)
  have p0: "prev (m' ! 0) = Some (?n - 1)"
  proof (cases "0 < k")
    case True
    then show ?thesis using kept m1_0 by simp
  next
    case False
    then show ?thesis using same npos m1_0 by simp
  qed
  have a: "\<forall>j<?n. k \<le> j \<and> 0 < j \<longrightarrow> m' ! j = m0 ! j"
    using same m1_j by simp
  have b: "\<forall>j<k. gene (m' ! j) = gene (m0 ! j) \<and> (0 < j \<longrightarrow> prev (m' ! j) = prev (m0 ! j))"
  proof (intro allI impI)
    fix j assume j: "j < k"
    show "gene (m' ! j) = gene (m0 ! j) \<and> (0 < j \<longrightarrow> prev (m' ! j) = prev (m0 ! j))"
      using kept j m1_0 m1_j by (cases "j = 0") simp_all
  qed
  have c: "0 < k \<longrightarrow> score (m' ! 0) = max 0 ?cs \<and> state (m' ! 0) = (if ?cs \<ge> 0 then 1 else 0)"
    using first m1_0 m1_last by (simp add: changes_fields)
  have d: "k = 0 \<longrightarrow> state (m' ! 0) = 0 \<and> score (m' ! 0) = score (m0 ! 0)"
  proof
    assume k0: "k = 0"
    then have "z = 0" using stop by simp
    then have "state (m0 ! 0) = 0" using zD(2) by simp
    then show "state (m' ! 0) = 0 \<and> score (m' ! 0) = score (m0 ! 0)"
      using same k0 npos m1_0 by simp
  qed
  show ?thesis
    apply (rule exI [of _ m'], rule exI [of _ k])
    using init res len kz p0 a b inr stop c d by simp
qed

theorem C5_witness:
  "is_circular circular_contig
   \<and> mat (init_pass circular_contig {} 3 1) \<noteq> []
   \<and> state (last (mat (init_pass circular_contig {} 3 1))) \<noteq> 0
   \<and> last_zero (mat (init_pass circular_contig {} 3 1)) = Some 1
   \<and> (\<exists>m k. init_matrices circular_contig {} 3 1 = Inr m \<and> k \<le> 1 \<and> prev (m ! 0) = Some 6
         \<and> (k = 1 \<or> (0 < k \<and> state (m ! (k - 1)) = 0)))"
proof -
  have circ: "is_circular circular_contig" by code_simp
  have inreg: "mat (init_pass circular_contig {} 3 1) \<noteq> []
               \<and> state (last (mat (init_pass circular_contig {} 3 1))) \<noteq> 0" by code_simp
  have zero: "last_zero (mat (init_pass circular_contig {} 3 1)) = Some 1" by code_simp
  have len: "length (mat (init_pass circular_contig {} 3 1)) - 1 = 6" by code_simp
  show ?thesis
    using circ inreg zero C5_rewalk_to_last_zero [OF circ refl inreg zero] unfolding len
    by blast
qed

section \<open>\<^verbatim>\<open>rewrite_matrix\<close> from the last position\<close>

text \<open>
  Claim C6 says that on a circular contig \<^verbatim>\<open>rewrite_matrix\<close> called with the last position
  continues the rescoring at position 0. The test before the loop is
  \<^verbatim>\<open>index > len(matrix)\<close>, which \<open>index + 1\<close> never satisfies for a position of the matrix, so
  from the last position nothing is rescored, on any contig.
\<close>

theorem C6_last_position_not_rescored:
  assumes "matrix \<noteq> []"
  shows "rewrite_matrix contig matrix (length matrix - 1) persistent continuity multi
           = Some (Inr matrix)"
proof -
  have pos: "0 < length matrix" using assms by simp
  then have "\<not> length matrix \<le> length matrix - 1" by linarith
  then show ?thesis using pos by (simp add: rewrite_matrix_def Let_def)
qed


theorem C6_witness:
  "extracted_matrix \<noteq> []
   \<and> is_circular circular_contig
   \<and> length extracted_matrix - 1 = 6
   \<and> state (extracted_matrix ! 0) = 1
   \<and> rewrite_matrix circular_contig extracted_matrix 6 3 1 {} = Some (Inr extracted_matrix)"
proof -
  have ne: "extracted_matrix \<noteq> []" by (simp add: extracted_matrix_def)
  have circ: "is_circular circular_contig" by code_simp
  have len: "length extracted_matrix - 1 = 6" by (simp add: extracted_matrix_def)
  have st: "state (extracted_matrix ! 0) = 1" by (simp add: extracted_matrix_def)
  show ?thesis
    using ne circ len st C6_last_position_not_rescored [OF ne, of circular_contig 3 1 "{}"]
    by simp
qed


text \<open>
  The run on the circular contig of two persistent and five shell genes: the first
  extraction starts at the last node and leaves \<open>extracted_matrix\<close>, whose node 0 still has
  state 1 and score 4. The loop of \<^verbatim>\<open>rewrite_matrix\<close> started at position 0, as its own wrap
  inside the loop would do, resets that node; \<^verbatim>\<open>rewrite_matrix\<close> leaves it, and the
  prediction returns a second region made of the persistent gene 0 alone.
\<close>

lemma circular_contig_first_extraction:
  "map_sum id (map_prod (map_option region_genes) id)
     (case init_matrices circular_contig {} 3 1 of
        Inl e \<Rightarrow> Inl e
      | Inr matrix \<Rightarrow> extract_rgp circular_contig matrix 6 0 ''contig'')
   = Inr (Some [example_gene 6 shell_family, example_gene 5 shell_family,
                example_gene 4 shell_family, example_gene 3 shell_family,
                example_gene 2 shell_family],
          extracted_matrix)"
  by code_simp


lemma circular_contig_wrapped_rescoring:
  "rewrite_loop True {} 3 1 extracted_matrix 6 0 0
     = Some (Inr (extracted_matrix[0 := (extracted_matrix ! 0)\<lparr>state := 0, score := 0\<rparr>]))"
  by code_simp

lemma circular_contig_regions:
  "contig_rgp circular_contig {} 3 1 0 4 ''contig''
     = Some (Inr [\<lparr>region_name = ''contig_RGP_0'',
                   region_genes = [example_gene 6 shell_family, example_gene 5 shell_family,
                                   example_gene 4 shell_family, example_gene 3 shell_family,
                                   example_gene 2 shell_family],
                   region_score = 5\<rparr>,
                  \<lparr>region_name = ''contig_RGP_1'',
                   region_genes = [example_gene 0 persistent_family],
                   region_score = 4\<rparr>])"
  by code_simp

section \<open>The extraction loop of \<^verbatim>\<open>mk_regions\<close>\<close>

subsection \<open>What one extraction consumes\<close>

lemma live_genes_consume:
  "i < length m \<Longrightarrow> state (m ! i) \<noteq> 0 \<Longrightarrow> state x = 0 \<Longrightarrow>
   add_mset (gene (m ! i)) (live_genes (m[i := x])) = live_genes m"
proof (induction m arbitrary: i)
  case Nil
  then show ?case by simp
next
  case (Cons a m)
  show ?case
  proof (cases i)
    case 0
    then show ?thesis using Cons.prems by (simp add: live_genes_def)
  next
    case (Suc j)
    then have "add_mset (gene (m ! j)) (live_genes (m[j := x])) = live_genes m"
      using Cons.prems by (intro Cons.IH) simp_all
    then have "add_mset (gene (m ! j)) (mset (map gene (filter (\<lambda>n. state n \<noteq> 0) (m[j := x]))))
               = mset (map gene (filter (\<lambda>n. state n \<noteq> 0) m))"
      by (simp only: live_genes_def)
    then show ?thesis using Suc by (cases "state a = 0") (simp_all add: live_genes_def)
  qed
qed

lemma live_genes_keep:
  "i < length m \<Longrightarrow> state (m ! i) \<noteq> 0 \<Longrightarrow> state x \<noteq> 0 \<Longrightarrow> gene x = gene (m ! i) \<Longrightarrow>
   live_genes (m[i := x]) = live_genes m"
proof (induction m arbitrary: i)
  case Nil
  then show ?case by simp
next
  case (Cons a m)
  show ?case
  proof (cases i)
    case 0
    then show ?thesis using Cons.prems by (simp add: live_genes_def)
  next
    case (Suc j)
    then have "live_genes (m[j := x]) = live_genes m"
      using Cons.prems by (intro Cons.IH) simp_all
    then have "mset (map gene (filter (\<lambda>n. state n \<noteq> 0) (m[j := x])))
               = mset (map gene (filter (\<lambda>n. state n \<noteq> 0) m))"
      by (simp only: live_genes_def)
    then show ?thesis using Suc by (cases "state a = 0") (simp_all add: live_genes_def)
  qed
qed

lemma live_genes_rescore:
  assumes "i < length m" and "state (m ! i) \<noteq> 0" and "gene x = gene (m ! i)"
  shows "live_genes (m[i := x]) \<subseteq># live_genes m"
proof (cases "state x = 0")
  case True
  have "live_genes (m[i := x]) \<subseteq># add_mset (gene (m ! i)) (live_genes (m[i := x]))"
    by simp
  then show ?thesis by (simp only: live_genes_consume [OF assms(1,2) True])
next
  case False
  then show ?thesis using live_genes_keep [OF assms(1,2) False assms(3)] by simp
qed

lemma live_genes_le: "live_genes m \<subseteq># mset (map gene m)"
  unfolding live_genes_def by (induction m) (auto intro: subset_mset.order_trans)

lemma extract_loop_stop:
  "\<not> (node < length matrix \<and> state (matrix ! node) \<noteq> 0) \<Longrightarrow>
   extract_loop matrix node acc = (acc, matrix)"
  by (subst extract_loop.simps) (rule if_not_P)

lemma extract_loop_step:
  "node < length matrix \<Longrightarrow> state (matrix ! node) \<noteq> 0 \<Longrightarrow>
   extract_loop matrix node acc
   = (case prev (matrix ! node) of
        None \<Rightarrow> (acc @ [gene (matrix ! node)], matrix[node := (matrix ! node)\<lparr>state := 0, score := 0\<rparr>])
      | Some p \<Rightarrow> extract_loop (matrix[node := (matrix ! node)\<lparr>state := 0, score := 0\<rparr>]) p
                    (acc @ [gene (matrix ! node)]))"
  by (subst extract_loop.simps) (simp add: Let_def)

lemma extract_loop_inv:
  "\<exists>new matrix'. extract_loop matrix node acc = (acc @ new, matrix')
     \<and> length matrix' = length matrix
     \<and> mset new + live_genes matrix' = live_genes matrix
     \<and> map gene matrix' = map gene matrix
     \<and> (\<forall>j<length matrix. state (matrix ! j) = 0 \<longrightarrow> state (matrix' ! j) = 0)
     \<and> (node < length matrix \<and> state (matrix ! node) \<noteq> 0 \<longrightarrow>
          (\<exists>rest. new = gene (matrix ! node) # rest) \<and> state (matrix' ! node) = 0)"
proof (induction "size (live_genes matrix)" arbitrary: matrix node acc rule: less_induct)
  case less
  show ?case
  proof (cases "node < length matrix \<and> state (matrix ! node) \<noteq> 0")
    case False
    then have "extract_loop matrix node acc = (acc @ [], matrix)"
      by (simp add: extract_loop_stop)
    then show ?thesis using False
      by (intro exI [of _ "[]"] exI [of _ matrix]) simp
  next
    case True
    let ?m1 = "matrix[node := (matrix ! node)\<lparr>state := 0, score := 0\<rparr>]"
    let ?g = "gene (matrix ! node)"
    have cons: "add_mset ?g (live_genes ?m1) = live_genes matrix"
      using True by (intro live_genes_consume) simp_all
    have genes1: "map gene ?m1 = map gene matrix"
      using True by (simp add: map_update list_update_same_conv)
    have zero1: "\<forall>j<length matrix. state (matrix ! j) = 0 \<longrightarrow> state (?m1 ! j) = 0"
    proof (intro allI impI)
      fix j assume "j < length matrix" and "state (matrix ! j) = 0"
      then show "state (?m1 ! j) = 0" by (cases "j = node") simp_all
    qed
    have st1: "state (?m1 ! node) = 0" using True by simp
    show ?thesis
    proof (cases "prev (matrix ! node)")
      case None
      then have "extract_loop matrix node acc = (acc @ [?g], ?m1)"
        using True by (simp add: extract_loop_step)
      then show ?thesis using cons genes1 zero1 st1
        by (intro exI [of _ "[?g]"] exI [of _ ?m1]) simp
    next
      case (Some p)
      have smaller: "size (live_genes ?m1) < size (live_genes matrix)"
        using cons by (metis size_add_mset lessI)
      from less.hyps [OF smaller, of p "acc @ [?g]"] obtain new matrix' where
        res: "extract_loop ?m1 p (acc @ [?g]) = ((acc @ [?g]) @ new, matrix')"
        and len: "length matrix' = length ?m1"
        and ms: "mset new + live_genes matrix' = live_genes ?m1"
        and gn: "map gene matrix' = map gene ?m1"
        and zr: "\<forall>j<length ?m1. state (?m1 ! j) = 0 \<longrightarrow> state (matrix' ! j) = 0"
        by blast
      have e: "extract_loop matrix node acc = (acc @ (?g # new), matrix')"
        using True Some res by (simp add: extract_loop_step)
      have ms': "mset (?g # new) + live_genes matrix' = live_genes matrix"
        using ms cons by simp
      have zr': "\<forall>j<length matrix. state (matrix ! j) = 0 \<longrightarrow> state (matrix' ! j) = 0"
        using zr zero1 by simp
      have stn: "state (matrix' ! node) = 0" using zr st1 True by simp
      show ?thesis
        apply (rule exI [of _ "?g # new"], rule exI [of _ matrix'])
        using e len ms' gn genes1 zr' stn by simp
    qed
  qed
qed

subsection \<open>\<^verbatim>\<open>rewrite_matrix\<close> after an extraction returns and brings no node back\<close>

lemma rewrite_loop_stop:
  "index < length matrix \<Longrightarrow> prv < length matrix \<Longrightarrow> state (matrix ! index) = 0 \<Longrightarrow>
   rewrite_loop circular multi P G matrix prv index nb = Some (Inr matrix)"
  by (subst rewrite_loop.simps) simp

lemma rewrite_loop_step:
  "index < length matrix \<Longrightarrow> prv < length matrix \<Longrightarrow> state (matrix ! index) \<noteq> 0 \<Longrightarrow>
   rewrite_loop circular multi P G matrix prv index nb
   = (if index + 1 \<ge> length matrix then
        (if circular then
           rewrite_loop circular multi P G
             (matrix[index := changes (matrix ! index)
                 (fst (modif_of multi P G nb (gene (matrix ! index))) + score (matrix ! prv))])
             index 0 (snd (modif_of multi P G nb (gene (matrix ! index))))
         else Some (Inr (matrix[index := changes (matrix ! index)
                 (fst (modif_of multi P G nb (gene (matrix ! index))) + score (matrix ! prv))])))
      else rewrite_loop circular multi P G
             (matrix[index := changes (matrix ! index)
                 (fst (modif_of multi P G nb (gene (matrix ! index))) + score (matrix ! prv))])
             index (index + 1) (snd (modif_of multi P G nb (gene (matrix ! index)))))"
  by (subst rewrite_loop.simps) (simp add: Let_def split_beta)

lemma rewrite_loop_inv:
  assumes "index < length matrix" and "prv < length matrix"
    and "circular \<longrightarrow> t < length matrix \<and> state (matrix ! t) = 0"
  shows "\<exists>matrix'. rewrite_loop circular multi P G matrix prv index nb = Some (Inr matrix')
           \<and> length matrix' = length matrix
           \<and> map gene matrix' = map gene matrix
           \<and> live_genes matrix' \<subseteq># live_genes matrix"
  using assms
proof (induction "steps_left circular t (length matrix) index"
         arbitrary: matrix prv index nb rule: less_induct)
  case less
  let ?n = "length matrix"
  show ?case
  proof (cases "state (matrix ! index) = 0")
    case True
    then have "rewrite_loop circular multi P G matrix prv index nb = Some (Inr matrix)"
      using less.prems by (intro rewrite_loop_stop)
    then show ?thesis by simp
  next
    case False
    let ?cs = "fst (modif_of multi P G nb (gene (matrix ! index))) + score (matrix ! prv)"
    let ?nb = "snd (modif_of multi P G nb (gene (matrix ! index)))"
    let ?m1 = "matrix[index := changes (matrix ! index) ?cs]"
    have len1: "length ?m1 = ?n" by simp
    have genes1: "map gene ?m1 = map gene matrix"
      using less.prems(1) by (simp add: map_update changes_fields list_update_same_conv)
    have live1: "live_genes ?m1 \<subseteq># live_genes matrix"
      using less.prems(1) False by (intro live_genes_rescore) (simp_all add: changes_fields)
    have tne: "circular \<longrightarrow> t \<noteq> index" using less.prems(3) False by auto
    have t1: "circular \<longrightarrow> t < length ?m1 \<and> state (?m1 ! t) = 0"
      using less.prems(3) tne by (auto simp: nth_list_update)
    have idx1: "index < length ?m1" using less.prems(1) by simp
    have step: "rewrite_loop circular multi P G matrix prv index nb
       = (if index + 1 \<ge> ?n then
            (if circular then rewrite_loop circular multi P G ?m1 index 0 ?nb
             else Some (Inr ?m1))
          else rewrite_loop circular multi P G ?m1 index (index + 1) ?nb)"
      using less.prems(1,2) False by (rule rewrite_loop_step)
    show ?thesis
    proof (cases "index + 1 \<ge> ?n")
      case last: True
      show ?thesis
      proof (cases circular)
        case False
        then have "rewrite_loop circular multi P G matrix prv index nb = Some (Inr ?m1)"
          using step last by simp
        then show ?thesis using genes1 live1 by simp
      next
        case True
        have dec: "steps_left circular t (length ?m1) 0 < steps_left circular t ?n index"
          using True last less.prems(1,3) tne by (simp add: steps_left_def)
        have z: "0 < length ?m1" unfolding len1 using less.prems(1) by linarith
        from less.hyps [OF dec z idx1 t1, of ?nb] obtain matrix' where
          r: "rewrite_loop circular multi P G ?m1 index 0 ?nb = Some (Inr matrix')"
          and l: "length matrix' = length ?m1"
          and g: "map gene matrix' = map gene ?m1"
          and v: "live_genes matrix' \<subseteq># live_genes ?m1"
          by blast
        have "rewrite_loop circular multi P G matrix prv index nb = Some (Inr matrix')"
          using step last True r by simp
        then show ?thesis using l g v genes1 live1
          by (auto intro: subset_mset.order_trans)
      qed
    next
      case inner: False
      have dec: "steps_left circular t (length ?m1) (index + 1) < steps_left circular t ?n index"
        using inner less.prems(1,3) tne by (auto simp add: steps_left_def)
      have nx: "index + 1 < length ?m1" using inner by simp
      from less.hyps [OF dec nx idx1 t1, of ?nb] obtain matrix' where
        r: "rewrite_loop circular multi P G ?m1 index (index + 1) ?nb = Some (Inr matrix')"
        and l: "length matrix' = length ?m1"
        and g: "map gene matrix' = map gene ?m1"
        and v: "live_genes matrix' \<subseteq># live_genes ?m1"
        by blast
      have "rewrite_loop circular multi P G matrix prv index nb = Some (Inr matrix')"
        using step inner r by simp
      then show ?thesis using l g v genes1 live1
        by (auto intro: subset_mset.order_trans)
    qed
  qed
qed

lemma rewrite_matrix_inv:
  assumes "index < length matrix" and "state (matrix ! index) = 0"
  shows "\<exists>matrix'. rewrite_matrix contig matrix index P G multi = Some (Inr matrix')
           \<and> length matrix' = length matrix
           \<and> map gene matrix' = map gene matrix
           \<and> live_genes matrix' \<subseteq># live_genes matrix"
proof (cases "index + 1 < length matrix")
  case True
  have eq: "rewrite_matrix contig matrix index P G multi
        = rewrite_loop (is_circular contig) multi P G matrix index (index + 1) 0"
    using True assms(1) by (simp add: rewrite_matrix_def Let_def)
  have "is_circular contig \<longrightarrow> index < length matrix \<and> state (matrix ! index) = 0"
    using assms by simp
  from rewrite_loop_inv [OF True assms(1) this, of multi P G 0] show ?thesis
    unfolding eq .
next
  case False
  then have "rewrite_matrix contig matrix index P G multi = Some (Inr matrix)"
    using assms(1) by (simp add: rewrite_matrix_def Let_def)
  then show ?thesis by simp
qed

subsection \<open>One turn of the loop\<close>

lemma fold_max_index:
  "i < k + length ys \<Longrightarrow>
   snd (foldl (\<lambda>(max_score, max_index) (idx, node).
                 if score node \<ge> max_score then (score node, idx) else (max_score, max_index))
          (v, i) (enumerate k ys)) < k + length ys"
proof (induction ys arbitrary: k v i)
  case Nil
  then show ?case by simp
next
  case (Cons y ys)
  show ?case
  proof (cases "score y \<ge> v")
    case True
    have "k < Suc k + length ys" by simp
    from Cons.IH [OF this, of "score y"] show ?thesis using True by simp
  next
    case False
    have "i < Suc k + length ys" using Cons.prems by simp
    from Cons.IH [OF this, of v] show ?thesis using False by simp
  qed
qed

lemma max_index_node_inv:
  assumes "matrix \<noteq> []"
  shows "\<exists>val index. max_index_node matrix = Inr (val, index) \<and> index < length matrix"
proof -
  let ?r = "foldl (\<lambda>(max_score, max_index) (idx, node).
                 if score node \<ge> max_score then (score node, idx) else (max_score, max_index))
          (score (matrix ! 0), 0) (enumerate 0 matrix)"
  have pos: "0 < 0 + length matrix" using assms by simp
  have bound: "snd ?r < length matrix"
    using fold_max_index [OF pos, of "score (matrix ! 0)"] by simp
  have "max_index_node matrix = Inr ?r"
    using assms by (simp only: max_index_node_def if_False)
  then have "max_index_node matrix = Inr (fst ?r, snd ?r)"
    by (simp only: prod.collapse)
  then show ?thesis using bound by blast
qed

lemma extract_rgp_cases:
  "(naming \<noteq> ''contig'' \<and> naming \<noteq> ''organism''
      \<and> (extract_rgp contig matrix index rgp_id naming = Inl AttributeError
          \<or> extract_rgp contig matrix index rgp_id naming = Inr (None, matrix)))
   \<or> ((naming = ''contig'' \<or> naming = ''organism'')
      \<and> extract_rgp contig matrix index rgp_id naming
          = Inr (Some \<lparr>region_name = rgp_name contig naming (gene (matrix ! index)) rgp_id,
                       region_genes = fst (extract_loop matrix index []),
                       region_score = 0\<rparr>,
                 snd (extract_loop matrix index [])))"
  by (simp add: extract_rgp_def rgp_name_def Region_def split_beta Let_def)

lemma mk_regions_body_inv:
  assumes "index < length matrix"
  shows "\<exists>r. mk_regions_body contig multi min_length P G naming matrix regions val index = Some r
     \<and> (\<forall>matrix' regions' val' index'. r = Inr (matrix', regions', val', index') \<longrightarrow>
          index' < length matrix' \<and> map gene matrix' = map gene matrix
          \<and> (\<exists>new. new \<noteq> [] \<and> hd new = gene (matrix ! index)
                \<and> mset new + live_genes matrix' \<subseteq># live_genes matrix
                \<and> regions' =
                     (if stop (hd new) - start (last new) > min_length
                      then regions @
                         [\<lparr>region_name = rgp_name contig naming (gene (matrix ! index)) (length regions),
                           region_genes = new, region_score = val\<rparr>]
                      else regions)))"
proof -
  let ?e = "extract_rgp contig matrix index (length regions) naming"
  consider (bad) "?e = Inl AttributeError" | (none) "?e = Inr (None, matrix)"
    | (good) "?e = Inr (Some \<lparr>region_name = rgp_name contig naming (gene (matrix ! index)) (length regions),
                       region_genes = fst (extract_loop matrix index []),
                       region_score = 0\<rparr>,
                 snd (extract_loop matrix index []))"
    using extract_rgp_cases [of naming contig matrix index "length regions"] by blast
  then show ?thesis
  proof cases
    case bad
    then show ?thesis by (simp add: mk_regions_body_def)
  next
    case none
    then show ?thesis by (simp add: mk_regions_body_def)
  next
    case good
    obtain new matrix1 where
      ex: "extract_loop matrix index [] = ([] @ new, matrix1)"
      and len1: "length matrix1 = length matrix"
      and ms1: "mset new + live_genes matrix1 = live_genes matrix"
      and gn1: "map gene matrix1 = map gene matrix"
      and st1: "index < length matrix \<and> state (matrix ! index) \<noteq> 0 \<longrightarrow>
                  (\<exists>rest. new = gene (matrix ! index) # rest) \<and> state (matrix1 ! index) = 0"
      using extract_loop_inv [of matrix index "[]"] by blast
    show ?thesis
    proof (cases "new = []")
      case True
      then show ?thesis using good ex by (simp add: mk_regions_body_def)
    next
      case False
      have live: "state (matrix ! index) \<noteq> 0"
      proof
        assume "state (matrix ! index) = 0"
        then have "extract_loop matrix index [] = ([], matrix)"
          by (intro extract_loop_stop) simp
        then show False using ex False by simp
      qed
      then have hd: "hd new = gene (matrix ! index)" and z1: "state (matrix1 ! index) = 0"
        using st1 assms by auto
      have i1: "index < length matrix1" using assms len1 by simp
      obtain matrix2 where
        rw: "rewrite_matrix contig matrix1 index P G multi = Some (Inr matrix2)"
        and len2: "length matrix2 = length matrix1"
        and gn2: "map gene matrix2 = map gene matrix1"
        and lv2: "live_genes matrix2 \<subseteq># live_genes matrix1"
        using rewrite_matrix_inv [OF i1 z1, of contig P G multi] by blast
      have ne2: "matrix2 \<noteq> []" using len2 i1 by auto
      obtain val' index' where
        mx: "max_index_node matrix2 = Inr (val', index')" and i2: "index' < length matrix2"
        using max_index_node_inv [OF ne2] by blast
      let ?reg = "\<lparr>region_name = rgp_name contig naming (gene (matrix ! index)) (length regions),
                    region_genes = new, region_score = val\<rparr>"
      let ?regions' = "if stop (hd new) - start (last new) > min_length
                       then regions @ [?reg] else regions"
      have body: "mk_regions_body contig multi min_length P G naming matrix regions val index
                    = Some (Inr (matrix2, ?regions', val', index'))"
        using good ex False rw mx by (simp add: mk_regions_body_def)
      have "mset new + live_genes matrix2 \<subseteq># mset new + live_genes matrix1"
        using lv2 by simp
      then have sub: "mset new + live_genes matrix2 \<subseteq># live_genes matrix"
        by (simp only: ms1)
      have props: "index' < length matrix2 \<and> map gene matrix2 = map gene matrix
          \<and> (\<exists>new. new \<noteq> [] \<and> hd new = gene (matrix ! index)
                \<and> mset new + live_genes matrix2 \<subseteq># live_genes matrix
                \<and> ?regions' =
                     (if stop (hd new) - start (last new) > min_length
                      then regions @
                         [\<lparr>region_name = rgp_name contig naming (gene (matrix ! index)) (length regions),
                           region_genes = new, region_score = val\<rparr>]
                      else regions))"
        using i2 gn2 gn1 False hd sub by (intro conjI exI [of _ new]) simp_all
      show ?thesis
      proof (rule exI [of _ "Inr (matrix2, ?regions', val', index')"], rule conjI)
        show "mk_regions_body contig multi min_length P G naming matrix regions val index
                = Some (Inr (matrix2, ?regions', val', index'))" by (rule body)
      next
        show "\<forall>matrix' regions' val'' index''.
           Inr (matrix2, ?regions', val', index') = Inr (matrix', regions', val'', index'') \<longrightarrow>
           index'' < length matrix' \<and> map gene matrix' = map gene matrix
          \<and> (\<exists>new. new \<noteq> [] \<and> hd new = gene (matrix ! index)
                \<and> mset new + live_genes matrix' \<subseteq># live_genes matrix
                \<and> regions' =
                     (if stop (hd new) - start (last new) > min_length
                      then regions @
                         [\<lparr>region_name = rgp_name contig naming (gene (matrix ! index)) (length regions),
                           region_genes = new, region_score = val\<rparr>]
                      else regions))"
        proof (intro allI impI)
          fix matrix' regions' val'' index''
          assume "Inr (matrix2, ?regions', val', index') = Inr (matrix', regions', val'', index'')"
          then have eqs: "matrix' = matrix2" "regions' = ?regions'" "index'' = index'"
            by (simp_all only: sum.inject prod.inject)
          show "index'' < length matrix' \<and> map gene matrix' = map gene matrix
            \<and> (\<exists>new. new \<noteq> [] \<and> hd new = gene (matrix ! index)
                \<and> mset new + live_genes matrix' \<subseteq># live_genes matrix
                \<and> regions' =
                     (if stop (hd new) - start (last new) > min_length
                      then regions @
                         [\<lparr>region_name = rgp_name contig naming (gene (matrix ! index)) (length regions),
                           region_genes = new, region_score = val\<rparr>]
                      else regions))"
            unfolding eqs by (rule props)
        qed
      qed
    qed
  qed
qed

subsection \<open>The whole loop\<close>

lemma mk_regions_loop_inv:
  assumes "index < length matrix"
  shows "\<exists>r. mk_regions_loop contig multi min_length min_score P G naming
                matrix regions val index = Some r
     \<and> (\<forall>rs. r = Inr rs \<longrightarrow>
          (\<exists>more. rs = regions @ more
             \<and> mset (concat (map region_genes more)) \<subseteq># live_genes matrix
             \<and> (\<forall>i<length more. region_name (more ! i)
                    = rgp_name contig naming (hd (region_genes (more ! i))) (length regions + i))))"
  using assms
proof (induction "size (live_genes matrix)" arbitrary: matrix regions val index rule: less_induct)
  case less
  show ?case
  proof (cases "val < min_score")
    case True
    then have "mk_regions_loop contig multi min_length min_score P G naming
                 matrix regions val index = Some (Inr regions)"
      by (rule mk_regions_loop_exit)
    then show ?thesis by (intro exI [of _ "Inr regions"]) simp
  next
    case False
    then have ge: "min_score \<le> val" by simp
    obtain rb where
      body: "mk_regions_body contig multi min_length P G naming matrix regions val index = Some rb"
      and props: "\<forall>matrix' regions' val' index'. rb = Inr (matrix', regions', val', index') \<longrightarrow>
          index' < length matrix' \<and> map gene matrix' = map gene matrix
          \<and> (\<exists>new. new \<noteq> [] \<and> hd new = gene (matrix ! index)
                \<and> mset new + live_genes matrix' \<subseteq># live_genes matrix
                \<and> regions' =
                     (if stop (hd new) - start (last new) > min_length
                      then regions @
                         [\<lparr>region_name = rgp_name contig naming (gene (matrix ! index)) (length regions),
                           region_genes = new, region_score = val\<rparr>]
                      else regions))"
      using mk_regions_body_inv [OF less.prems, of contig multi min_length P G naming regions val]
      by blast
    show ?thesis
    proof (cases rb)
      case (Inl e)
      then have "mk_regions_loop contig multi min_length min_score P G naming
                   matrix regions val index = Some (Inl e)"
        using ge body by (intro mk_regions_loop_raise) simp_all
      then show ?thesis by (intro exI [of _ "Inl e"]) simp
    next
      case (Inr t)
      obtain matrix' regions' val' index' where t: "t = (matrix', regions', val', index')"
        by (cases t) auto
      have rb: "rb = Inr (matrix', regions', val', index')" using Inr t by simp
      from props rb obtain new where
        i': "index' < length matrix'"
        and ne: "new \<noteq> []"
        and hd: "hd new = gene (matrix ! index)"
        and sub: "mset new + live_genes matrix' \<subseteq># live_genes matrix"
        and regs_if: "regions' =
                     (if stop (hd new) - start (last new) > min_length
                      then regions @
                         [\<lparr>region_name = rgp_name contig naming (gene (matrix ! index)) (length regions),
                           region_genes = new, region_score = val\<rparr>]
                      else regions)"
        by blast
      have regs: "regions' = regions
                   \<or> regions' = regions @
                         [\<lparr>region_name = rgp_name contig naming (gene (matrix ! index)) (length regions),
                           region_genes = new, region_score = val\<rparr>]"
        using regs_if by (cases "stop (hd new) - start (last new) > min_length") simp_all
      have step: "mk_regions_loop contig multi min_length min_score P G naming
                    matrix regions val index
                  = mk_regions_loop contig multi min_length min_score P G naming
                      matrix' regions' val' index'"
        using ge body rb by (intro mk_regions_loop_step) simp_all
      have "size (mset new) + size (live_genes matrix') \<le> size (live_genes matrix)"
        using size_mset_mono [OF sub] by simp
      moreover have "0 < size (mset new)" using ne by simp
      ultimately have smaller: "size (live_genes matrix') < size (live_genes matrix)"
        by linarith
      have sub': "live_genes matrix' \<subseteq># live_genes matrix"
        using sub by (metis subset_mset.le_add_same_cancel2 subset_mset.order_trans
                            mset_subset_eq_add_right)
      from less.hyps [OF smaller i', of regions' val'] obtain r where
        res: "mk_regions_loop contig multi min_length min_score P G naming
                matrix' regions' val' index' = Some r"
        and ih: "\<forall>rs. r = Inr rs \<longrightarrow>
          (\<exists>more. rs = regions' @ more
             \<and> mset (concat (map region_genes more)) \<subseteq># live_genes matrix'
             \<and> (\<forall>i<length more. region_name (more ! i)
                    = rgp_name contig naming (hd (region_genes (more ! i))) (length regions' + i)))"
        by blast
      have "\<forall>rs. r = Inr rs \<longrightarrow>
          (\<exists>more. rs = regions @ more
             \<and> mset (concat (map region_genes more)) \<subseteq># live_genes matrix
             \<and> (\<forall>i<length more. region_name (more ! i)
                    = rgp_name contig naming (hd (region_genes (more ! i))) (length regions + i)))"
      proof (intro allI impI)
        fix rs assume "r = Inr rs"
        with ih obtain more where
          rs: "rs = regions' @ more"
          and ms: "mset (concat (map region_genes more)) \<subseteq># live_genes matrix'"
          and nm: "\<forall>i<length more. region_name (more ! i)
                    = rgp_name contig naming (hd (region_genes (more ! i))) (length regions' + i)"
          by blast
        show "\<exists>more. rs = regions @ more
             \<and> mset (concat (map region_genes more)) \<subseteq># live_genes matrix
             \<and> (\<forall>i<length more. region_name (more ! i)
                    = rgp_name contig naming (hd (region_genes (more ! i))) (length regions + i))"
        proof (cases "regions' = regions")
          case True
          have "mset (concat (map region_genes more)) \<subseteq># live_genes matrix"
            using ms sub' by (rule subset_mset.order_trans)
          then show ?thesis using rs nm True by (intro exI [of _ more]) simp
        next
          case False
          let ?reg = "\<lparr>region_name = rgp_name contig naming (gene (matrix ! index)) (length regions),
                         region_genes = new, region_score = val\<rparr>"
          have r': "regions' = regions @ [?reg]" using regs False by blast
          have "mset new + mset (concat (map region_genes more))
                  \<subseteq># mset new + live_genes matrix'"
            using ms by simp
          then have "mset new + mset (concat (map region_genes more)) \<subseteq># live_genes matrix"
            using sub by (rule subset_mset.order_trans)
          then have ms': "mset (concat (map region_genes (?reg # more))) \<subseteq># live_genes matrix"
            by simp
          have nm': "\<forall>i<length (?reg # more). region_name ((?reg # more) ! i)
                    = rgp_name contig naming (hd (region_genes ((?reg # more) ! i)))
                        (length regions + i)"
          proof (intro allI impI)
            fix i assume i: "i < length (?reg # more)"
            show "region_name ((?reg # more) ! i)
                    = rgp_name contig naming (hd (region_genes ((?reg # more) ! i)))
                        (length regions + i)"
            proof (cases i)
              case 0
              then show ?thesis using hd by simp
            next
              case (Suc j)
              then have "j < length more" using i by simp
              then have "region_name (more ! j)
                    = rgp_name contig naming (hd (region_genes (more ! j))) (length regions' + j)"
                using nm by blast
              then show ?thesis using Suc r' by simp
            qed
          qed
          have "rs = regions @ (?reg # more)" using rs r' by simp
          then show ?thesis using ms' nm' by (intro exI [of _ "?reg # more"] conjI)
        qed
      qed
      then show ?thesis using step res by (intro exI [of _ r]) simp
    qed
  qed
qed

lemma init_pass_genes:
  "map gene (mat (init_pass contig multi P G)) = genes contig"
proof (rule nth_equalityI)
  show "length (map gene (mat (init_pass contig multi P G))) = length (genes contig)"
    by (simp add: init_pass_def init_fold_length)
next
  fix i assume "i < length (map gene (mat (init_pass contig multi P G)))"
  then have i: "i < length (genes contig)" by (simp add: init_pass_def init_fold_length)
  then have "node_ok multi P G (genes contig) (mat (init_pass contig multi P G)) i"
    unfolding init_pass_def by (rule init_fold_nodes)
  then have "gene (mat (init_pass contig multi P G) ! i) = genes contig ! i"
    by (simp add: node_ok_def Let_def)
  then show "map gene (mat (init_pass contig multi P G)) ! i = genes contig ! i"
    using i by (simp add: init_pass_def init_fold_length)
qed

lemma init_matrices_genes:
  "\<exists>m. init_matrices contig multi P G = Inr m \<and> map gene m = genes contig"
proof -
  let ?v = "init_pass contig multi P G"
  let ?m0 = "mat ?v"
  let ?m1 = "?m0[0 := (?m0 ! 0)\<lparr>prev := Some (length ?m0 - 1)\<rparr>]"
  have g0: "map gene ?m0 = genes contig" by (rule init_pass_genes)
  have plain: "init_matrices contig multi P G = Inr ?m0 \<Longrightarrow> ?thesis"
    using g0 by simp
  show ?thesis
  proof (cases "curr_state ?v")
    case None
    then have "init_matrices contig multi P G = Inr ?m0"
      by (simp add: init_matrices_def Let_def)
    then show ?thesis by (rule plain)
  next
    case (Some st)
    note cs = this
    show ?thesis
    proof (cases "zero_ind ?v")
      case None
      then have "init_matrices contig multi P G = Inr ?m0"
        using cs by (simp add: init_matrices_def Let_def)
      then show ?thesis by (rule plain)
    next
      case (Some zero)
      note zi = this
      show ?thesis
      proof (cases "is_circular contig \<and> st \<noteq> 0")
        case False
        have "init_matrices contig multi P G = Inr ?m0"
          unfolding init_matrices_def Let_def cs zi
          by (simp only: prod.case option.case if_not_P [OF False])
        then show ?thesis by (rule plain)
      next
        case True
        then have st: "st \<noteq> 0" by simp
        have init: "init_matrices contig multi P G
                      = wrap_loop multi P G zero (length ?m0 - 1) st ?m1 0 0"
          unfolding init_matrices_def Let_def cs zi
          by (simp only: prod.case option.case if_P [OF True])
        have "last_zero ?m0 = Some zero"
          using zi init_fold_zero_ind [of multi P G "genes contig"] by (simp add: init_pass_def)
        then have "zero < length ?m0" using last_zero_SomeD by blast
        then have z: "zero < length ?m1" by simp
        have g1: "map gene ?m1 = map gene ?m0"
          by (cases "?m0") simp_all
        have le: "(0::nat) \<le> zero" by simp
        from wrap_loop_walk [OF le z st, of multi P G "length ?m0 - 1" 0]
        obtain m' k where
          res: "wrap_loop multi P G zero (length ?m0 - 1) st ?m1 0 0 = Inr m'"
          and len: "length m' = length ?m1"
          and same: "\<forall>j<length ?m1. j < 0 \<or> k \<le> j \<longrightarrow> m' ! j = ?m1 ! j"
          and kept: "\<forall>j. 0 \<le> j \<and> j < k \<longrightarrow>
                       gene (m' ! j) = gene (?m1 ! j) \<and> prev (m' ! j) = prev (?m1 ! j)"
          by (elim exE conjE) (rule that)
        have "map gene m' = map gene ?m1"
        proof (rule nth_equalityI)
          show "length (map gene m') = length (map gene ?m1)" using len by simp
        next
          fix j assume "j < length (map gene m')"
          then have j: "j < length ?m1" using len by simp
          have "gene (m' ! j) = gene (?m1 ! j)"
          proof (cases "j < k")
            case True
            then show ?thesis using kept by simp
          next
            case False
            then have "k \<le> j" by simp
            then show ?thesis using same j by simp
          qed
          then show "map gene m' ! j = map gene ?m1 ! j" using j len by simp
        qed
        then have "map gene m' = genes contig" using g1 g0 by simp
        then show ?thesis using init res by simp
      qed
    qed
  qed
qed

lemma returned_regions:
  "map_option (map_sum id f) x = Some (Inr ys) \<Longrightarrow> \<exists>rs. x = Some (Inr rs) \<and> f rs = ys"
proof (cases x)
  case None
  assume "map_option (map_sum id f) x = Some (Inr ys)"
  then show ?thesis using None by simp
next
  case (Some a)
  assume "map_option (map_sum id f) x = Some (Inr ys)"
  then show ?thesis using Some by (cases a) simp_all
qed

text \<open>
  Claim C4: for every contig and all parameters, the prediction of the contig
  (\<^verbatim>\<open>init_matrices\<close>, then the loop of \<^verbatim>\<open>mk_regions\<close> with its calls of \<^verbatim>\<open>extract_rgp\<close> and
  \<^verbatim>\<open>rewrite_matrix\<close>) returns, with an exception or with regions; the genes of the returned
  regions, counted with the number of times they were appended, form a sub-multiset of the
  genes of the contig, so each gene of the contig is appended to at most one region, and
  the sum of the gene counts of the regions is at most the gene count of the contig. With
  \<^verbatim>\<open>min_length\<close> below every span the returned regions are all the extracted ones.
\<close>

theorem C4_each_gene_in_at_most_one_region:
  "\<exists>r. contig_rgp contig multi P G min_length min_score naming = Some r
     \<and> (\<forall>rs. r = Inr rs \<longrightarrow>
           mset (concat (map region_genes rs)) \<subseteq># mset (genes contig)
           \<and> sum_list (map (\<lambda>x. length (region_genes x)) rs) \<le> length (genes contig))"
proof (cases "length (genes contig) \<noteq> 0")
  case False
  then have "contig_rgp contig multi P G min_length min_score naming = Some (Inr [])"
    by (simp add: contig_rgp_def)
  then show ?thesis by (intro exI [of _ "Inr []"]) simp
next
  case True
  obtain m where init: "init_matrices contig multi P G = Inr m"
    and gm: "map gene m = genes contig"
    using init_matrices_genes by blast
  have "length (map gene m) = length (genes contig)" by (simp only: gm)
  then have lm: "length m = length (genes contig)" by simp
  have ne: "m \<noteq> []"
  proof
    assume "m = []"
    then show False using lm True by simp
  qed
  obtain val index where mx: "max_index_node m = Inr (val, index)" and idx: "index < length m"
    using max_index_node_inv [OF ne] by blast
  have eq: "contig_rgp contig multi P G min_length min_score naming
          = mk_regions_loop contig multi min_length min_score P G naming m [] val index"
    using True init mx by (simp add: contig_rgp_def mk_regions_def)
  obtain r where res: "mk_regions_loop contig multi min_length min_score P G naming
                         m [] val index = Some r"
    and inv: "\<forall>rs. r = Inr rs \<longrightarrow>
          (\<exists>more. rs = [] @ more
             \<and> mset (concat (map region_genes more)) \<subseteq># live_genes m
             \<and> (\<forall>i<length more. region_name (more ! i)
                    = rgp_name contig naming (hd (region_genes (more ! i))) (length ([]::region list) + i)))"
    using mk_regions_loop_inv [OF idx, of contig multi min_length min_score P G naming "[]" val]
    by blast
  have "\<forall>rs. r = Inr rs \<longrightarrow>
           mset (concat (map region_genes rs)) \<subseteq># mset (genes contig)
           \<and> sum_list (map (\<lambda>x. length (region_genes x)) rs) \<le> length (genes contig)"
  proof (intro allI impI)
    fix rs assume "r = Inr rs"
    with inv obtain more where "rs = [] @ more"
      and "mset (concat (map region_genes more)) \<subseteq># live_genes m"
      by blast
    then have "mset (concat (map region_genes rs)) \<subseteq># live_genes m" by simp
    moreover have "live_genes m \<subseteq># mset (genes contig)"
      using live_genes_le [of m] gm by simp
    ultimately have sub: "mset (concat (map region_genes rs)) \<subseteq># mset (genes contig)"
      by (rule subset_mset.order_trans)
    have "length (concat (map region_genes rs)) \<le> length (genes contig)"
      using size_mset_mono [OF sub] by simp
    moreover have "length (concat (map region_genes rs))
                     = sum_list (map (\<lambda>x. length (region_genes x)) rs)"
      by (simp add: length_concat comp_def)
    ultimately show "mset (concat (map region_genes rs)) \<subseteq># mset (genes contig)
           \<and> sum_list (map (\<lambda>x. length (region_genes x)) rs) \<le> length (genes contig)"
      using sub by simp
  qed
  then show ?thesis using eq res by (intro exI [of _ r]) simp
qed

theorem C4_witness:
  "\<exists>rs. contig_rgp small_runs_contig {} 3 1 0 2 ''contig'' = Some (Inr rs)
      \<and> map (\<lambda>x. length (region_genes x)) rs = [4, 3, 4]
      \<and> mset (concat (map region_genes rs)) \<subseteq># mset (genes small_runs_contig)
      \<and> sum_list (map (\<lambda>x. length (region_genes x)) rs) \<le> length (genes small_runs_contig)"
proof -
  have "map_option (map_sum id (map (\<lambda>x. length (region_genes x))))
          (contig_rgp small_runs_contig {} 3 1 0 2 ''contig'') = Some (Inr [4, 3, 4])"
    by code_simp
  from returned_regions [OF this]
  obtain rs where rs: "contig_rgp small_runs_contig {} 3 1 0 2 ''contig'' = Some (Inr rs)"
    and ls: "map (\<lambda>x. length (region_genes x)) rs = [4, 3, 4]"
    by (elim exE conjE) (rule that, assumption+)
  show ?thesis
    using rs ls C4_each_gene_in_at_most_one_region [of small_runs_contig "{}" 3 1 0 2 "''contig''"]
    by simp
qed

text \<open>
  Claim C10: the index in the name of a newly extracted region is the number of regions
  kept so far, and a region rejected by the length filter leaves the kept regions as they
  were (second part of the statement, for one turn of the loop); hence \<^verbatim>\<open>mk_regions\<close>, which
  always returns, names the kept regions with the consecutive indices \<open>0, \<dots>, k - 1\<close> in
  the order of their extraction, whatever was rejected in between (first part).
\<close>

theorem C10_kept_regions_numbered_in_order:
  "(\<exists>r. mk_regions contig matrix multi min_length min_score P G naming = Some r
      \<and> (\<forall>rs. r = Inr rs \<longrightarrow>
            (\<forall>i<length rs. region_name (rs ! i)
                 = rgp_name contig naming (hd (region_genes (rs ! i))) i)))
   \<and> (\<forall>matrix' regions' val' index'.
         index < length matrix
         \<and> mk_regions_body contig multi min_length P G naming matrix regions val index
             = Some (Inr (matrix', regions', val', index')) \<longrightarrow>
         (\<exists>new. new \<noteq> []
            \<and> regions' =
                 (if stop (hd new) - start (last new) > min_length
                  then regions @
                     [\<lparr>region_name = rgp_name contig naming (gene (matrix ! index)) (length regions),
                       region_genes = new, region_score = val\<rparr>]
                  else regions)))"
proof (rule conjI)
  show "\<exists>r. mk_regions contig matrix multi min_length min_score P G naming = Some r
      \<and> (\<forall>rs. r = Inr rs \<longrightarrow>
            (\<forall>i<length rs. region_name (rs ! i)
                 = rgp_name contig naming (hd (region_genes (rs ! i))) i))"
  proof (cases "matrix = []")
    case True
    then have "mk_regions contig matrix multi min_length min_score P G naming
                 = Some (Inl IndexError)"
      by (simp add: mk_regions_def max_index_node_def)
    then show ?thesis by (intro exI [of _ "Inl IndexError"]) simp
  next
    case False
    obtain val index where mx: "max_index_node matrix = Inr (val, index)"
      and idx: "index < length matrix"
      using max_index_node_inv [OF False] by blast
    have eq: "mk_regions contig matrix multi min_length min_score P G naming
          = mk_regions_loop contig multi min_length min_score P G naming matrix [] val index"
      using mx by (simp add: mk_regions_def)
    obtain r where res: "mk_regions_loop contig multi min_length min_score P G naming
                         matrix [] val index = Some r"
      and inv: "\<forall>rs. r = Inr rs \<longrightarrow>
          (\<exists>more. rs = ([]::region list) @ more
             \<and> mset (concat (map region_genes more)) \<subseteq># live_genes matrix
             \<and> (\<forall>i<length more. region_name (more ! i)
                    = rgp_name contig naming (hd (region_genes (more ! i)))
                        (length ([]::region list) + i)))"
      using mk_regions_loop_inv [OF idx, of contig multi min_length min_score P G naming "[]" val]
      by blast
    have "\<forall>rs. r = Inr rs \<longrightarrow>
            (\<forall>i<length rs. region_name (rs ! i)
                 = rgp_name contig naming (hd (region_genes (rs ! i))) i)"
    proof (intro allI impI)
      fix rs i assume r: "r = Inr rs" and i: "i < length rs"
      from inv r obtain more where m: "rs = ([]::region list) @ more"
        and nm: "\<forall>i<length more. region_name (more ! i)
                    = rgp_name contig naming (hd (region_genes (more ! i)))
                        (length ([]::region list) + i)"
        by blast
      have "rs = more" using m by simp
      then show "region_name (rs ! i) = rgp_name contig naming (hd (region_genes (rs ! i))) i"
        using nm i by simp
    qed
    then show ?thesis using eq res by (intro exI [of _ r]) simp
  qed
next
  show "\<forall>matrix' regions' val' index'.
         index < length matrix
         \<and> mk_regions_body contig multi min_length P G naming matrix regions val index
             = Some (Inr (matrix', regions', val', index')) \<longrightarrow>
         (\<exists>new. new \<noteq> []
            \<and> regions' =
                 (if stop (hd new) - start (last new) > min_length
                  then regions @
                     [\<lparr>region_name = rgp_name contig naming (gene (matrix ! index)) (length regions),
                       region_genes = new, region_score = val\<rparr>]
                  else regions))"
  proof (intro allI impI)
    fix matrix' regions' val' index'
    assume a: "index < length matrix
         \<and> mk_regions_body contig multi min_length P G naming matrix regions val index
             = Some (Inr (matrix', regions', val', index'))"
    then have idx: "index < length matrix" by simp
    from mk_regions_body_inv [OF idx, of contig multi min_length P G naming regions val]
    obtain rb where
      body: "mk_regions_body contig multi min_length P G naming matrix regions val index = Some rb"
      and props: "\<forall>matrix' regions' val' index'. rb = Inr (matrix', regions', val', index') \<longrightarrow>
          index' < length matrix' \<and> map gene matrix' = map gene matrix
          \<and> (\<exists>new. new \<noteq> [] \<and> hd new = gene (matrix ! index)
                \<and> mset new + live_genes matrix' \<subseteq># live_genes matrix
                \<and> regions' =
                     (if stop (hd new) - start (last new) > min_length
                      then regions @
                         [\<lparr>region_name = rgp_name contig naming (gene (matrix ! index)) (length regions),
                           region_genes = new, region_score = val\<rparr>]
                      else regions))"
      by blast
    have "rb = Inr (matrix', regions', val', index')" using a body by simp
    with props obtain new where "new \<noteq> []"
      and "regions' =
                     (if stop (hd new) - start (last new) > min_length
                      then regions @
                         [\<lparr>region_name = rgp_name contig naming (gene (matrix ! index)) (length regions),
                           region_genes = new, region_score = val\<rparr>]
                      else regions)"
      by blast
    then show "\<exists>new. new \<noteq> []
            \<and> regions' =
                 (if stop (hd new) - start (last new) > min_length
                  then regions @
                     [\<lparr>region_name = rgp_name contig naming (gene (matrix ! index)) (length regions),
                       region_genes = new, region_score = val\<rparr>]
                  else regions)"
      by blast
  qed
qed

theorem C10_witness:
  "(\<exists>rs. mk_regions small_runs_contig small_runs_matrix {} 3000 2 3 1 ''contig'' = Some (Inr rs)
       \<and> map region_name rs = [''contig_RGP_0'', ''contig_RGP_1'']
       \<and> region_name (rs ! 1)
           = rgp_name small_runs_contig ''contig'' (hd (region_genes (rs ! 1))) 1)
   \<and> map_option (map_sum id (map (\<lambda>x. length (region_genes x))))
        (mk_regions small_runs_contig small_runs_matrix {} 3000 2 3 1 ''contig'')
       = Some (Inr [4, 4])
   \<and> map_option (map_sum id (map (\<lambda>x. length (region_genes x))))
        (mk_regions small_runs_contig small_runs_matrix {} 0 2 3 1 ''contig'')
       = Some (Inr [4, 3, 4])"
proof -
  have "map_option (map_sum id (map region_name))
          (mk_regions small_runs_contig small_runs_matrix {} 3000 2 3 1 ''contig'')
        = Some (Inr [''contig_RGP_0'', ''contig_RGP_1''])"
    by code_simp
  from returned_regions [OF this]
  obtain rs where
    rs: "mk_regions small_runs_contig small_runs_matrix {} 3000 2 3 1 ''contig'' = Some (Inr rs)"
    and names: "map region_name rs = [''contig_RGP_0'', ''contig_RGP_1'']"
    by (elim exE conjE) (rule that, assumption+)
  have len: "length rs = 2" using arg_cong [OF names, of length] by simp
  have kept: "map_option (map_sum id (map (\<lambda>x. length (region_genes x))))
        (mk_regions small_runs_contig small_runs_matrix {} 3000 2 3 1 ''contig'')
       = Some (Inr [4, 4])"
    by code_simp
  have all: "map_option (map_sum id (map (\<lambda>x. length (region_genes x))))
        (mk_regions small_runs_contig small_runs_matrix {} 0 2 3 1 ''contig'')
       = Some (Inr [4, 3, 4])"
    by code_simp
  have nm: "region_name (rs ! 1)
           = rgp_name small_runs_contig ''contig'' (hd (region_genes (rs ! 1))) 1"
    using rs len
      C10_kept_regions_numbered_in_order
        [of small_runs_contig small_runs_matrix "{}" 3000 2 3 1 "''contig''"]
    by simp
  have ex: "\<exists>rs. mk_regions small_runs_contig small_runs_matrix {} 3000 2 3 1 ''contig''
              = Some (Inr rs)
       \<and> map region_name rs = [''contig_RGP_0'', ''contig_RGP_1'']
       \<and> region_name (rs ! 1)
           = rgp_name small_runs_contig ''contig'' (hd (region_genes (rs ! 1))) 1"
    using rs names nm by (intro exI [of _ rs] conjI)
  show ?thesis using ex kept all by (intro conjI)
qed

end
